theory Spec2Isabelle
  imports Complex_Main
begin

section \<open>Dimension labels and errors\<close>

text \<open>
  The enumeration \<open>Dim\<close> is declared in \<open>dimension.h\<close>, which is not part of the
  available sources; the labels below are the ones the sources and the specification
  use (\<open>Dim::X\<close>, \<open>Dim::Tof\<close>, ..., \<open>Dim::Invalid\<close>).
\<close>

datatype Dim = Invalid | X | Y | Z | Tof | Q | Spectrum | Detector | Event | Row | Component

text \<open>
  Every \<open>throw\<close> of the sources is a value of \<open>error\<close>; the constructor names follow
  the messages of the \<open>std::runtime_error\<close>s.  \<open>UndefinedBehaviour\<close> stands for an
  access outside a buffer, which C++ leaves undefined.
\<close>

datatype error =
    TooManyDimensions
  | InvalidDimension
  | DuplicateDimension
  | NegativeExtent
  | DimensionNotFound
  | DataSizeMismatch
  | UnitsDoNotMatch
  | UnitArithmetic
  | DimensionsDoNotMatch
  | DimensionExtentsDoNotMatch
  | DataTypesDoNotMatch
  | NamesDoNotMatch
  | UnderlyingTypesDoNotMatch
  | NotArithmeticType
  | CannotAddStrings
  | EventsSubtractionNotImplemented
  | EventsMultiplicationNotImplemented
  | NestedDimensionMustBe1
  | SliceIndexOutOfRange
  | NotFound
  | NotUnique
  | UndefinedBehaviour

section \<open>Dimensions (dimensions.h)\<close>

text \<open>
  A \<open>Dimensions\<close> object holds \<open>m_ndim\<close> and two arrays of six slots, \<open>m_dims\<close> and
  \<open>m_shape\<close>.  The model keeps the first \<open>m_ndim\<close> slots as a list of pairs; the
  other slots always hold \<open>(Dim::Invalid, -1)\<close>.  Extents are \<open>gsl::index\<close> in the
  source; the constructor rejects negative ones, so a constructed object holds naturals.
\<close>

type_synonym Dimensions = "(Dim \<times> nat) list"

text \<open>The loop of the constructor: both checks for slot \<open>i\<close> before slot \<open>i + 1\<close>.\<close>

fun check_slots :: "(Dim \<times> int) list \<Rightarrow> error option" where
  "check_slots [] = None"
| "check_slots ((d, n) # rest) =
     (if d = Invalid then Some InvalidDimension
      else if n < 0 then Some NegativeExtent
      else check_slots rest)"

definition Dimensions_init :: "(Dim \<times> int) list \<Rightarrow> error + Dimensions" where
  "Dimensions_init dims =
     (if length dims > 6 then Inl TooManyDimensions
      else case check_slots dims of
             Some e \<Rightarrow> Inl e
           | None \<Rightarrow> Inr (map (\<lambda>(d, n). (d, nat n)) dims))"

definition labels :: "Dimensions \<Rightarrow> Dim list" where
  "labels dims = map fst dims"

definition shape :: "Dimensions \<Rightarrow> nat list" where
  "shape dims = map snd dims"

definition ndim :: "Dimensions \<Rightarrow> nat" where
  "ndim dims = length dims"

definition volume :: "Dimensions \<Rightarrow> nat" where
  "volume dims = prod_list (map snd dims)"

definition contains :: "Dimensions \<Rightarrow> Dim \<Rightarrow> bool" where
  "contains dims d = (d \<in> set (map fst dims))"

subsection \<open>Operations defined in dimensions.cpp\<close>

text \<open>
  Modelled from the spec: \<open>dimensions.cpp\<close> is missing; \<open>dimensions.h\<close> only declares
  \<open>contains(const Dimensions &)\<close>, \<open>isContiguousIn\<close>, \<open>label\<close>, \<open>size\<close>,
  \<open>offset\<close>, \<open>resize\<close>, \<open>erase\<close> and \<open>add\<close>.  The specification gives: the first
  entry is the outermost and the last the innermost dimension; \<open>size(Dim)\<close> is the
  extent of a dimension; \<open>offset(Dim)\<close> is the product of the extents strictly after that
  Dim; \<open>contains(other)\<close> holds iff every (Dim, extent) of \<open>other\<close> appears in self with
  identical extent; \<open>isContiguousIn(parent)\<close> holds iff self's Dims are a contiguous
  suffix of parent's Dims with matching extents, or self is empty; \<open>resize(Dim, n)\<close>
  keeps the Dim's position; \<open>erase(Dim)\<close> shifts later Dims leftward; a Dimensions has
  at most 6 entries, no duplicate Dim, no \<open>Dim::Invalid\<close> and no negative extent.  The
  dimension that \<open>add\<close> inserts becomes the outermost one (scenario 2 of the
  specification: concatenating two variables of shape \<open>{Tof:2}\<close> along \<open>Q\<close> gives the
  shape \<open>{Q:2, Tof:2}\<close>).  A label that is not found is the error
  \<open>DimensionNotFound\<close> of \<open>operator[]\<close>.
\<close>

fun extent_of :: "Dimensions \<Rightarrow> Dim \<Rightarrow> nat" where
  "extent_of [] d = 0"
| "extent_of ((d', n) # rest) d = (if d' = d then n else extent_of rest d)"

fun extent_after :: "Dimensions \<Rightarrow> Dim \<Rightarrow> nat" where
  "extent_after [] d = 0"
| "extent_after ((d', n) # rest) d = (if d' = d then volume rest else extent_after rest d)"

definition size_of :: "Dimensions \<Rightarrow> Dim \<Rightarrow> error + nat" where
  "size_of dims d = (if contains dims d then Inr (extent_of dims d) else Inl DimensionNotFound)"

definition offset :: "Dimensions \<Rightarrow> Dim \<Rightarrow> error + nat" where
  "offset dims d = (if contains dims d then Inr (extent_after dims d) else Inl DimensionNotFound)"

definition label :: "Dimensions \<Rightarrow> nat \<Rightarrow> error + Dim" where
  "label dims i = (if i < length dims then Inr (fst (dims ! i)) else Inl DimensionNotFound)"

definition contains_dims :: "Dimensions \<Rightarrow> Dimensions \<Rightarrow> bool" where
  "contains_dims dims other = (set other \<subseteq> set dims)"

definition isContiguousIn :: "Dimensions \<Rightarrow> Dimensions \<Rightarrow> bool" where
  "isContiguousIn dims parent =
     (dims = [] \<or> (length dims \<le> length parent
                  \<and> drop (length parent - length dims) parent = dims))"

fun set_extent :: "Dimensions \<Rightarrow> Dim \<Rightarrow> nat \<Rightarrow> Dimensions" where
  "set_extent [] d n = []"
| "set_extent ((d', m) # rest) d n =
     (if d' = d then (d', n) # rest else (d', m) # set_extent rest d n)"

definition resize :: "Dimensions \<Rightarrow> Dim \<Rightarrow> int \<Rightarrow> error + Dimensions" where
  "resize dims d n =
     (if \<not> contains dims d then Inl DimensionNotFound
      else if n < 0 then Inl NegativeExtent
      else Inr (set_extent dims d (nat n)))"

fun remove_dim :: "Dimensions \<Rightarrow> Dim \<Rightarrow> Dimensions" where
  "remove_dim [] d = []"
| "remove_dim ((d', m) # rest) d = (if d' = d then rest else (d', m) # remove_dim rest d)"

definition erase :: "Dimensions \<Rightarrow> Dim \<Rightarrow> error + Dimensions" where
  "erase dims d = (if contains dims d then Inr (remove_dim dims d) else Inl DimensionNotFound)"

definition add :: "Dimensions \<Rightarrow> Dim \<Rightarrow> int \<Rightarrow> error + Dimensions" where
  "add dims d n =
     (if contains dims d then Inl DuplicateDimension
      else if length dims \<ge> 6 then Inl TooManyDimensions
      else if d = Invalid then Inl InvalidDimension
      else if n < 0 then Inl NegativeExtent
      else Inr ((d, nat n) # dims))"

section \<open>ValueWithDelta (value\_with\_delta.h)\<close>

text \<open>
  \<open>ValueWithDelta<double>\<close> with the doubles read as real numbers: the comparison is
  modelled over the reals, without rounding, infinities or NaN.
\<close>

record ValueWithDelta =
  m_value :: real
  m_delta :: real

definition ValueWithDelta_default :: ValueWithDelta where
  "ValueWithDelta_default = \<lparr>m_value = 0, m_delta = 0\<rparr>"

definition vwd_eq :: "ValueWithDelta \<Rightarrow> ValueWithDelta \<Rightarrow> bool" where
  "vwd_eq a b = (\<bar>m_value a - m_value b\<bar> < max (m_delta a) (m_delta b))"

text \<open>Element-wise comparison of two buffers: \<open>std::equal\<close> over both ranges.\<close>

definition equal_elems :: "('a \<Rightarrow> 'a \<Rightarrow> bool) \<Rightarrow> 'a list \<Rightarrow> 'a list \<Rightarrow> bool" where
  "equal_elems eq xs ys = (length xs = length ys \<and> list_all2 eq xs ys)"

section \<open>Units and tags (unit.h, tags.h)\<close>

text \<open>
  \<open>unit.h\<close> is missing; \<open>Unit::Id::Dimensionless\<close>, \<open>Length\<close> and \<open>Area\<close> are the
  identifiers the sources use.  The multiplication table of \<open>unit.cpp\<close> is a parameter
  \<open>umul\<close> of the operations that need it.
\<close>

datatype Unit = Dimensionless | Length | Area

text \<open>The element types of the tags (\<open>gsl::index\<close> is \<open>int64_t\<close> on the platforms
  for which \<open>variable.cpp\<close> has no separate instantiation).\<close>

datatype ElemType =
    E_double | E_int32 | E_int64 | E_char | E_string | E_pair_int64 | E_ValueWithDelta
  | E_array3 | E_array4 | E_shared_array | E_small_vector_index | E_vector_index
  | E_vector_string | E_Dataset

text \<open>\<open>Tags\<close>: the tuples \<open>Coord::tags\<close>, \<open>Data::tags\<close> and \<open>Attr::tags\<close> in
  order; \<open>tag_id<T>\<close> is the position of \<open>T\<close>.\<close>

definition Coord_tags :: "ElemType list" where
  "Coord_tags =
     [E_double, E_double, E_double, E_double, E_double, E_int32, E_int32, E_char,
      E_char, E_array4, E_double, E_small_vector_index, E_double, E_string, E_string,
      E_double, E_ValueWithDelta, E_int64, E_pair_int64, E_char, E_array4, E_array3,
      E_int64, E_vector_index, E_array3, E_shared_array, E_string, E_vector_index,
      E_vector_index, E_pair_int64, E_pair_int64, E_int64, E_array3, E_shared_array]"

definition Data_tags :: "ElemType list" where
  "Data_tags =
     [E_double, E_double, E_double, E_double, E_double, E_int64, E_int64, E_string,
      E_vector_string, E_Dataset, E_Dataset]"

definition Attr_tags :: "ElemType list" where
  "Attr_tags = [E_Dataset]"

definition Tags :: "ElemType list" where
  "Tags = Coord_tags @ Data_tags @ Attr_tags"

definition Coord_X :: nat where "Coord_X = 0"
definition Coord_Y :: nat where "Coord_Y = 1"
definition Coord_Z :: nat where "Coord_Z = 2"
definition Coord_Tof :: nat where "Coord_Tof = 3"
definition Coord_SpectrumNumber :: nat where "Coord_SpectrumNumber = 6"
definition Coord_RowLabel :: nat where "Coord_RowLabel = 13"
definition Coord_FuzzyTemperature :: nat where "Coord_FuzzyTemperature = 16"
definition Data_Tof :: nat where "Data_Tof = 34"
definition Data_PulseTime :: nat where "Data_PulseTime = 35"
definition Data_Value :: nat where "Data_Value = 36"
definition Data_Variance :: nat where "Data_Variance = 37"
definition Data_Int :: nat where "Data_Int = 39"
definition Data_String :: nat where "Data_String = 41"
definition Data_Events :: nat where "Data_Events = 43"
definition Data_Table :: nat where "Data_Table = 44"

definition elem_type :: "nat \<Rightarrow> ElemType" where
  "elem_type t = Tags ! t"

definition is_coord :: "nat \<Rightarrow> bool" where
  "is_coord t = (t < length Coord_tags)"

definition is_attr :: "nat \<Rightarrow> bool" where
  "is_attr t = (t \<ge> length Coord_tags + length Data_tags)"

definition is_data :: "nat \<Rightarrow> bool" where
  "is_data t = (\<not> is_coord t \<and> \<not> is_attr t)"

text \<open>\<open>coordDimension\<close> and \<open>isDimensionCoord\<close>: the specialisations of
  \<open>coordinate_dimension\<close> and \<open>is_dimension_coordinate\<close>.\<close>

definition coordDimension :: "nat \<Rightarrow> Dim" where
  "coordDimension t =
     (if t = Coord_Tof then Tof else if t = Coord_X then X else if t = Coord_Y then Y
      else if t = Coord_Z then Z else if t = Coord_SpectrumNumber then Spectrum
      else if t = Coord_RowLabel then Row else Invalid)"

definition isDimensionCoord :: "nat \<Rightarrow> bool" where
  "isDimensionCoord t =
     (t = Coord_Tof \<or> t = Coord_X \<or> t = Coord_Y \<or> t = Coord_Z
      \<or> t = Coord_SpectrumNumber \<or> t = Coord_RowLabel)"

section \<open>Buffers, spans and strided views\<close>

text \<open>
  A span is the list of the positions it covers in its buffer.  \<open>UndefinedBehaviour\<close> is
  returned where the C++ code would read or write outside a buffer.
\<close>

definition span :: "nat \<Rightarrow> nat \<Rightarrow> nat list" where
  "span b e = [b..<e]"

text \<open>
  Modelled from the spec: \<open>variable_view.h\<close> (\<open>VariableView\<close>, \<open>makeVariableView\<close>) is
  missing.  A strided view carries a position in a host buffer, the parent Dimensions
  (used to compute strides) and the projected Dimensions (used to compute iteration order
  and length); iteration is done by a multi-dimensional index over the projected
  dimensions, outermost first, that maps projected coordinates to parent offsets with the
  parent's strides; a Dim that the parent does not have has stride zero (broadcast), and
  permuted Dims give transposed traversal.
\<close>

definition stride :: "Dimensions \<Rightarrow> Dim \<Rightarrow> nat" where
  "stride parent d = (if contains parent d then extent_after parent d else 0)"

fun view_offsets :: "Dimensions \<Rightarrow> (Dim \<Rightarrow> nat) \<Rightarrow> nat \<Rightarrow> nat list" where
  "view_offsets [] str base = [base]"
| "view_offsets ((d, n) # rest) str base =
     concat (map (\<lambda>i. view_offsets rest str (base + i * str d)) [0..<n])"

definition makeVariableView :: "nat \<Rightarrow> Dimensions \<Rightarrow> Dimensions \<Rightarrow> nat list" where
  "makeVariableView base targetDimensions dimensions =
     view_offsets targetDimensions (stride dimensions) base"

text \<open>\<open>CopyHelper::copy\<close>: \<open>std::copy(view1.begin(), view1.end(), view2.begin())\<close>,
  from the positions \<open>src_at\<close> of \<open>src\<close> to the positions \<open>dst_at\<close> of \<open>dst\<close>.\<close>

definition write_all :: "'a list \<Rightarrow> (nat \<times> 'a) list \<Rightarrow> 'a list" where
  "write_all dst ws = fold (\<lambda>(t, v) xs. xs[t := v]) ws dst"

definition CopyHelper_copy ::
    "'a list \<Rightarrow> nat list \<Rightarrow> 'a list \<Rightarrow> nat list \<Rightarrow> error + 'a list" where
  "CopyHelper_copy src src_at dst dst_at =
     (if length dst_at < length src_at
         \<or> list_ex (\<lambda>s. length src \<le> s) src_at
         \<or> list_ex (\<lambda>t. length dst \<le> t) (take (length src_at) dst_at)
      then Inl UndefinedBehaviour
      else Inr (write_all dst (zip dst_at (map (\<lambda>s. src ! s) src_at))))"

section \<open>Variable (variable.cpp)\<close>

text \<open>
  A \<open>Variable\<close> has a tag id, a name, a unit and a copy-on-write handle to a
  \<open>VariableModel<Vector<T>>\<close>, which holds the dimensions and the element buffer.  The
  model is parametric in the element type \<open>T\<close>.
\<close>

record 'a Variable =
  m_type :: nat
  m_name :: string
  m_unit :: Unit
  m_dimensions :: Dimensions
  m_model :: "'a list"

text \<open>The constructor of \<open>VariableModel\<close> checks the buffer length.\<close>

definition makeVariable :: "nat \<Rightarrow> Unit \<Rightarrow> Dimensions \<Rightarrow> 'a list \<Rightarrow> error + 'a Variable" where
  "makeVariable t u dims xs =
     (if volume dims \<noteq> length xs then Inl DataSizeMismatch
      else Inr \<lparr>m_type = t, m_name = [], m_unit = u, m_dimensions = dims, m_model = xs\<rparr>)"

text \<open>\<open>Variable::setDimensions\<close>: unchanged dimensions keep the buffer; otherwise
  \<open>clone(dims)\<close> allocates \<open>dims.volume()\<close> value-initialised elements \<open>init\<close>.\<close>

definition setDimensions :: "'a \<Rightarrow> 'a Variable \<Rightarrow> Dimensions \<Rightarrow> 'a Variable" where
  "setDimensions init v dims =
     (if dims = m_dimensions v then v
      else v\<lparr>m_dimensions := dims, m_model := replicate (volume dims) init\<rparr>)"

text \<open>\<open>CastHelper<T>::getSpan(concept, dim, begin, end)\<close> on an owning model.\<close>

definition getSpan :: "Dimensions \<Rightarrow> nat \<Rightarrow> Dim \<Rightarrow> nat \<Rightarrow> nat \<Rightarrow> error + nat list" where
  "getSpan dims sz dm ibegin iend =
     (if \<not> contains dims dm \<and> (ibegin \<noteq> 0 \<or> iend \<noteq> 1) then Inl SliceIndexOutOfRange
      else if \<not> contains dims dm \<or> int (extent_of dims dm) = int iend - int ibegin
           then Inr (span 0 sz)
      else Inr (span (ibegin * extent_after dims dm) (iend * extent_after dims dm)))"

text \<open>\<open>CastHelper<T>::getView(concept, dims, dim, begin)\<close> on an owning model.\<close>

definition getView :: "Dimensions \<Rightarrow> Dimensions \<Rightarrow> Dim \<Rightarrow> nat \<Rightarrow> nat list" where
  "getView cdims dims dm ibegin =
     (let beginOffset = (if contains cdims dm then ibegin * extent_after cdims dm
                         else ibegin * volume cdims)
      in makeVariableView beginOffset dims cdims)"

text \<open>
  \<open>VariableModel::copy(other, dim, offset, otherBegin, otherEnd)\<close> for two owning
  models (\<open>isContiguous()\<close> is true for both): the four cases of the source.
\<close>

definition copy ::
    "Dimensions \<Rightarrow> 'a list \<Rightarrow> Dimensions \<Rightarrow> 'a list \<Rightarrow> Dim \<Rightarrow> nat \<Rightarrow> nat \<Rightarrow> nat
       \<Rightarrow> error + 'a list" where
  "copy dims data odims odata dm off otherBegin otherEnd =
     (let delta = int otherEnd - int otherBegin in
      case (if contains dims dm then resize dims dm delta else Inr dims) of
        Inl e \<Rightarrow> Inl e
      | Inr iterDims \<Rightarrow>
          (let otherView = getView odims iterDims dm otherBegin in
           if isContiguousIn iterDims dims then
             (case getSpan dims (length data) dm off (off + nat delta) of
                Inl e \<Rightarrow> Inl e
              | Inr target \<Rightarrow>
                  if isContiguousIn iterDims odims then
                    (case getSpan odims (length odata) dm otherBegin otherEnd of
                       Inl e \<Rightarrow> Inl e
                     | Inr source \<Rightarrow> CopyHelper_copy odata source data target)
                  else CopyHelper_copy odata otherView data target)
           else
             (let view = getView dims iterDims dm off in
              if isContiguousIn iterDims odims then
                (case getSpan odims (length odata) dm otherBegin otherEnd of
                   Inl e \<Rightarrow> Inl e
                 | Inr source \<Rightarrow> CopyHelper_copy odata source data view)
              else CopyHelper_copy odata otherView data view)))"

text \<open>\<open>out.data().copy(...)\<close> on a Variable.\<close>

definition copy_into ::
    "'a Variable \<Rightarrow> 'a Variable \<Rightarrow> Dim \<Rightarrow> nat \<Rightarrow> nat \<Rightarrow> nat \<Rightarrow> error + 'a Variable" where
  "copy_into out other dm off otherBegin otherEnd =
     (case copy (m_dimensions out) (m_model out) (m_dimensions other) (m_model other)
             dm off otherBegin otherEnd of
        Inl e \<Rightarrow> Inl e
      | Inr xs \<Rightarrow> Inr (out\<lparr>m_model := xs\<rparr>))"

text \<open>\<open>slice(var, dim, index)\<close> and \<open>slice(var, dim, begin, end)\<close>.\<close>

definition slice :: "'a \<Rightarrow> 'a Variable \<Rightarrow> Dim \<Rightarrow> nat \<Rightarrow> error + 'a Variable" where
  "slice init var dm index =
     (case erase (m_dimensions var) dm of
        Inl e \<Rightarrow> Inl e
      | Inr dims \<Rightarrow> copy_into (setDimensions init var dims) var dm 0 index (index + 1))"

definition slice_range ::
    "'a \<Rightarrow> 'a Variable \<Rightarrow> Dim \<Rightarrow> nat \<Rightarrow> nat \<Rightarrow> error + 'a Variable" where
  "slice_range init var dm ibegin iend =
     (case resize (m_dimensions var) dm (int iend - int ibegin) of
        Inl e \<Rightarrow> Inl e
      | Inr dims \<Rightarrow>
          if dims = m_dimensions var then Inr var
          else copy_into (setDimensions init var dims) var dm 0 ibegin iend)"

text \<open>\<open>split(var, dim, indices)\<close>: the slices are built in order; the first exception
  ends the call.\<close>

fun collect :: "(error + 'b) list \<Rightarrow> error + 'b list" where
  "collect [] = Inr []"
| "collect (r # rs) =
     (case r of
        Inl e \<Rightarrow> Inl e
      | Inr x \<Rightarrow> (case collect rs of Inl e \<Rightarrow> Inl e | Inr xs \<Rightarrow> Inr (x # xs)))"

definition split :: "'a \<Rightarrow> 'a Variable \<Rightarrow> Dim \<Rightarrow> nat list \<Rightarrow> error + 'a Variable list" where
  "split init var dm indices =
     (if indices = [] then Inr [var]
      else collect
             (slice_range init var dm 0 (hd indices)
              # map (\<lambda>i. slice_range init var dm (indices ! i) (indices ! (i + 1)))
                  [0..<length indices - 1]
              @ [case size_of (m_dimensions var) dm of
                   Inl e \<Rightarrow> Inl e
                 | Inr n \<Rightarrow> slice_range init var dm (last indices) n]))"

text \<open>\<open>concatenate(a1, a2, dim)\<close>.\<close>

fun check_extents :: "Dim list \<Rightarrow> Dimensions \<Rightarrow> Dimensions \<Rightarrow> Dim \<Rightarrow> error option" where
  "check_extents [] dims1 dims2 dm = None"
| "check_extents (dim1 # rest) dims1 dims2 dm =
     (if dim1 \<noteq> dm then
        (if \<not> contains dims2 dim1 then Some DimensionsDoNotMatch
         else if extent_of dims2 dim1 \<noteq> extent_of dims1 dim1
              then Some DimensionExtentsDoNotMatch
         else check_extents rest dims1 dims2 dm)
      else check_extents rest dims1 dims2 dm)"

text \<open>
  \<open>gsl::index\<close> is a signed 64-bit integer: \<open>extent1 + extent2\<close> wraps around at
  \<open>2 ^ 63\<close>.
\<close>

definition index_add :: "nat \<Rightarrow> nat \<Rightarrow> int" where
  "index_add x y =
     (let s = (int x + int y) mod 2 ^ 64 in if s < 2 ^ 63 then s else s - 2 ^ 64)"

definition concatenate ::
    "'a \<Rightarrow> 'a Variable \<Rightarrow> 'a Variable \<Rightarrow> Dim \<Rightarrow> error + 'a Variable" where
  "concatenate init a1 a2 dm =
     (if m_type a1 \<noteq> m_type a2 then Inl DataTypesDoNotMatch
      else if m_unit a1 \<noteq> m_unit a2 then Inl UnitsDoNotMatch
      else if m_name a1 \<noteq> m_name a2 then Inl NamesDoNotMatch
      else
        (let dims1 = m_dimensions a1; dims2 = m_dimensions a2 in
         case check_extents (labels dims1) dims1 dims2 dm of
           Some e \<Rightarrow> Inl e
         | None \<Rightarrow>
             (let size1 = int (ndim dims1) - (if contains dims1 dm then 1 else 0);
                  size2 = int (ndim dims2) - (if contains dims2 dm then 1 else 0)
              in if size1 \<noteq> size2 then Inl DimensionsDoNotMatch
                 else
                   (let extent1 = (if contains dims1 dm then extent_of dims1 dm else 1);
                        extent2 = (if contains dims2 dm then extent_of dims2 dm else 1)
                    in case (if contains dims1 dm
                             then resize dims1 dm (index_add extent1 extent2)
                             else add dims1 dm (index_add extent1 extent2)) of
                         Inl e \<Rightarrow> Inl e
                       | Inr dims \<Rightarrow>
                           (case copy_into (setDimensions init a1 dims) a1 dm 0 0 extent1 of
                              Inl e \<Rightarrow> Inl e
                            | Inr out \<Rightarrow> copy_into out a2 dm extent1 0 extent2)))))"

definition valid_index :: "Dimensions \<Rightarrow> (Dim \<Rightarrow> nat) \<Rightarrow> bool" where
  "valid_index dims c = (\<forall>(d, n) \<in> set dims. c d < n)"

fun row_major :: "Dimensions \<Rightarrow> (Dim \<Rightarrow> nat) \<Rightarrow> nat" where
  "row_major [] c = 0"
| "row_major ((d, n) # rest) c = c d * volume rest + row_major rest c"

fun strided :: "Dimensions \<Rightarrow> (Dim \<Rightarrow> nat) \<Rightarrow> (Dim \<Rightarrow> nat) \<Rightarrow> nat" where
  "strided [] str c = 0"
| "strided ((d, n) # rest) str c = c d * str d + strided rest str c"

fun coords :: "Dimensions \<Rightarrow> nat \<Rightarrow> Dim \<Rightarrow> nat" where
  "coords [] k d' = 0"
| "coords ((d, n) # rest) k d' =
     (if d' = d then k div volume rest else coords rest (k mod volume rest) d')"

definition extent_or_1 :: "Dimensions \<Rightarrow> Dim \<Rightarrow> nat" where
  "extent_or_1 dims d = (if contains dims d then extent_of dims d else 1)"

definition well_formed :: "'a Variable \<Rightarrow> bool" where
  "well_formed v =
     (distinct (labels (m_dimensions v)) \<and> length (m_model v) = volume (m_dimensions v))"

definition same_other_extents :: "Dimensions \<Rightarrow> Dimensions \<Rightarrow> Dim \<Rightarrow> bool" where
  "same_other_extents dims1 dims2 dm =
     (\<forall>d. d \<noteq> dm \<longrightarrow> (contains dims1 d \<longleftrightarrow> contains dims2 d)
                       \<and> extent_of dims1 d = extent_of dims2 d)"

definition mkv :: "Dimensions \<Rightarrow> real list \<Rightarrow> real Variable" where
  "mkv dims xs = \<lparr>m_type = Data_Value, m_name = [], m_unit = Dimensionless,
                  m_dimensions = dims, m_model = xs\<rparr>"

definition six_dimensional :: "real Variable" where
  "six_dimensional =
     mkv [(X, 1), (Y, 1), (Z, 1), (Tof, 1), (Spectrum, 1), (Detector, 1)] [1]"

text \<open>
  The specification's \<open>concatenate*\<close>: the parts are joined from left to right along
  \<open>dm\<close>; the first exception ends the call.
\<close>

fun concatenate_all :: "'a \<Rightarrow> Dim \<Rightarrow> 'a Variable \<Rightarrow> 'a Variable list \<Rightarrow> error + 'a Variable" where
  "concatenate_all init dm acc [] = Inr acc"
| "concatenate_all init dm acc (q # qs) =
     (case concatenate init acc q dm of
        Inl e \<Rightarrow> Inl e
      | Inr acc' \<Rightarrow> concatenate_all init dm acc' qs)"

text \<open>The pairs of neighbouring entries of a list of boundaries.\<close>

fun adjacent :: "nat list \<Rightarrow> (nat \<times> nat) list" where
  "adjacent (x # y # r) = (x, y) # adjacent (y # r)"
| "adjacent [x] = []"
| "adjacent [] = []"

section \<open>In-place arithmetic (variable.cpp)\<close>

text \<open>
  The right-hand side \<open>other\<close> of \<open>Variable::operator+=\<close>, \<open>-=\<close> and \<open>*=\<close> is a
  \<open>Variable\<close> or a \<open>VariableSlice\<close>.  The operators read its \<open>type()\<close>, \<open>unit()\<close>,
  \<open>dimensions()\<close> and \<open>data()\<close>; \<open>data()\<close> is an owning model (\<open>o_view = None\<close>) or a
  \<open>VariableView\<close> with a begin offset and parent dimensions.  \<open>Separate xs\<close> says that
  the elements live in a buffer \<open>xs\<close> of their own, \<open>Shared\<close> that they live in the buffer
  of the left-hand side (the same \<open>Variable\<close>, or a slice of it).
\<close>

datatype 'a Storage = Separate "'a list" | Shared

record 'a Operand =
  o_type :: nat
  o_unit :: Unit
  o_dimensions :: Dimensions
  o_view :: "(nat \<times> Dimensions) option"
  o_storage :: "'a Storage"

definition operand :: "'a Variable \<Rightarrow> 'a Operand" where
  "operand v = \<lparr>o_type = m_type v, o_unit = m_unit v, o_dimensions = m_dimensions v,
                o_view = None, o_storage = Separate (m_model v)\<rparr>"

text \<open>\<open>VariableModel::makeView(dim, begin, end)\<close>: the dimensions of the view and its
  begin offset (\<open>CastHelper<T>::getView(*this, dims, dim, begin)\<close>); \<open>end = -1\<close> drops the
  dimension.\<close>

definition makeView :: "Dimensions \<Rightarrow> Dim \<Rightarrow> nat \<Rightarrow> int \<Rightarrow> error + Dimensions \<times> nat" where
  "makeView dimensions dm ibegin iend =
     (case (if iend = - 1 then erase dimensions dm
            else resize dimensions dm (iend - int ibegin)) of
        Inl e \<Rightarrow> Inl e
      | Inr dims \<Rightarrow>
          Inr (dims, if contains dimensions dm then ibegin * extent_after dimensions dm
                     else ibegin * volume dimensions))"

text \<open>
  Modelled from the spec: \<open>VariableSlice\<close> is declared in \<open>variable.h\<close>, which is
  missing.  \<open>var(dim, begin, end)\<close> is a borrowed reference to \<open>var\<close> with the restriction
  \<open>(dim, begin, end)\<close>; its tag and unit are those of \<open>var\<close>, its dimensions are the
  parent's with the restriction applied, and its data is the view of \<open>makeView\<close>.
\<close>

definition VariableSlice :: "'a Variable \<Rightarrow> 'a Storage \<Rightarrow> Dim \<Rightarrow> nat \<Rightarrow> int \<Rightarrow> error + 'a Operand" where
  "VariableSlice var st dm ibegin iend =
     (case makeView (m_dimensions var) dm ibegin iend of
        Inl e \<Rightarrow> Inl e
      | Inr (dims, beginOffset) \<Rightarrow>
          Inr \<lparr>o_type = m_type var, o_unit = m_unit var, o_dimensions = dims,
               o_view = Some (beginOffset, m_dimensions var), o_storage = st\<rparr>)"

text \<open>\<open>isContiguous()\<close> of the right-hand side.\<close>

definition isContiguous :: "'a Operand \<Rightarrow> bool" where
  "isContiguous other =
     (case o_view other of
        None \<Rightarrow> True
      | Some (beginOffset, parent) \<Rightarrow> isContiguousIn (o_dimensions other) parent)"

text \<open>\<open>CastHelper<T>::getSpan(other)\<close>: the whole buffer of an owning model, or
  \<open>size()\<close> elements from the begin of a view.  \<open>sz\<close> is the length of the buffer.\<close>

definition operand_span :: "'a Operand \<Rightarrow> nat \<Rightarrow> nat list" where
  "operand_span other sz =
     (case o_view other of
        None \<Rightarrow> span 0 sz
      | Some (beginOffset, parent) \<Rightarrow>
          span beginOffset (beginOffset + volume (o_dimensions other)))"

text \<open>
  \<open>CastHelper<T>::getView(other, dims)\<close>.  For an owning model it is
  \<open>makeVariableView(data, dims, other.dimensions())\<close>.  Modelled from the spec: a view
  made from a view keeps the begin offset and the parent's strides for the Dims of the
  given view and has stride zero for every other Dim.
\<close>

definition operand_view :: "'a Operand \<Rightarrow> Dimensions \<Rightarrow> nat list" where
  "operand_view other dims =
     (case o_view other of
        None \<Rightarrow> makeVariableView 0 dims (o_dimensions other)
      | Some (beginOffset, parent) \<Rightarrow>
          view_offsets dims
            (\<lambda>d. if contains (o_dimensions other) d then stride parent d else 0) beginOffset)"

text \<open>
  \<open>std::transform(a.begin(), a.end(), b.begin(), a.begin(), Op<T>())\<close>: one element
  after the other, \<open>a[k] = op(a[k], b[k])\<close>, where \<open>b[k]\<close> is read when it is needed.
\<close>

definition read_elem :: "'a Storage \<Rightarrow> 'a list \<Rightarrow> nat \<Rightarrow> 'a option" where
  "read_elem st cur s =
     (case st of
        Separate ys \<Rightarrow> (if s < length ys then Some (ys ! s) else None)
      | Shared \<Rightarrow> (if s < length cur then Some (cur ! s) else None))"

fun transform :: "('a \<Rightarrow> 'a \<Rightarrow> 'a) \<Rightarrow> 'a Storage \<Rightarrow> nat list \<Rightarrow> nat list \<Rightarrow> 'a list \<Rightarrow> error + 'a list" where
  "transform op st [] ss cur = Inr cur"
| "transform op st (t # ts) [] cur = Inl UndefinedBehaviour"
| "transform op st (t # ts) (s # ss) cur =
     (case read_elem st cur s of
        None \<Rightarrow> Inl UndefinedBehaviour
      | Some y \<Rightarrow>
          if t < length cur then transform op st ts ss (cur[t := op (cur ! t) y])
          else Inl UndefinedBehaviour)"

text \<open>\<open>ArithmeticHelper<Op, T>::apply\<close> with its specialisations for the element types
  without arithmetic.\<close>

definition ArithmeticHelper_apply ::
    "('a \<Rightarrow> 'a \<Rightarrow> 'a) \<Rightarrow> ElemType \<Rightarrow> 'a Storage \<Rightarrow> nat list \<Rightarrow> nat list \<Rightarrow> 'a list
       \<Rightarrow> error + 'a list" where
  "ArithmeticHelper_apply op ty st a b cur =
     (if ty = E_string then Inl CannotAddStrings
      else if ty \<in> {E_shared_array, E_array4, E_array3, E_small_vector_index, E_vector_index,
                    E_vector_string, E_pair_int64, E_ValueWithDelta}
           then Inl NotArithmeticType
      else transform op st a b cur)"

text \<open>
  \<open>VariableModel<T>::apply<Op>(other)\<close> for the owning model of a \<open>Variable\<close>
  (\<open>isContiguous()\<close> is true).  The \<open>dynamic_cast\<close> in \<open>CastHelper\<close> throws
  \<open>std::bad_cast\<close> when the element types differ, before \<open>ArithmeticHelper::apply\<close> is
  entered.
\<close>

definition apply_op ::
    "('a \<Rightarrow> 'a \<Rightarrow> 'a) \<Rightarrow> 'a Variable \<Rightarrow> 'a Operand \<Rightarrow> error + 'a list" where
  "apply_op op v other =
     (if elem_type (o_type other) \<noteq> elem_type (m_type v) then Inl UnderlyingTypesDoNotMatch
      else if isContiguous other \<and> isContiguousIn (m_dimensions v) (o_dimensions other)
           then ArithmeticHelper_apply op (elem_type (m_type v)) (o_storage other)
                  (span 0 (length (m_model v)))
                  (operand_span other
                     (case o_storage other of Separate ys \<Rightarrow> length ys
                      | Shared \<Rightarrow> length (m_model v)))
                  (m_model v)
      else ArithmeticHelper_apply op (elem_type (m_type v)) (o_storage other)
             (span 0 (length (m_model v)))
             (operand_view other (m_dimensions v))
             (m_model v))"

text \<open>\<open>other.cast<Dataset>()\<close>: the elements of the right-hand side.\<close>

definition operand_elems :: "'a Operand \<Rightarrow> 'a list \<Rightarrow> 'a list" where
  "operand_elems other cur =
     (let buf = (case o_storage other of Separate ys \<Rightarrow> ys | Shared \<Rightarrow> cur) in
      case o_view other of
        None \<Rightarrow> buf
      | Some (beginOffset, parent) \<Rightarrow>
          map (\<lambda>s. buf ! s) (view_offsets (o_dimensions other) (stride parent) beginOffset))"

text \<open>The loop \<open>datasets[i] = concatenate(datasets[i], otherDatasets[i], dim)\<close>: an
  exception at index \<open>i\<close> leaves the entries before \<open>i\<close> replaced.\<close>

fun concatenate_events ::
    "('a \<Rightarrow> 'a \<Rightarrow> Dim \<Rightarrow> error + 'a) \<Rightarrow> Dim \<Rightarrow> 'a list \<Rightarrow> 'a list \<Rightarrow> 'a list \<times> error option" where
  "concatenate_events cat dm [] os = ([], None)"
| "concatenate_events cat dm (x # xs) [] = (x # xs, Some UndefinedBehaviour)"
| "concatenate_events cat dm (x # xs) (y # ys) =
     (case cat x y dm of
        Inl e \<Rightarrow> (x # xs, Some e)
      | Inr z \<Rightarrow> (case concatenate_events cat dm xs ys of (zs, r) \<Rightarrow> (z # zs, r)))"

text \<open>
  \<open>Variable::operator+=\<close>.  The result is the left-hand side after the call and the
  exception that ended it, if any.  \<open>ds_dimensions\<close> and \<open>ds_concatenate\<close> are
  \<open>Dataset::dimensions()\<close> and \<open>concatenate(Dataset, Dataset, Dim)\<close> on the elements of an
  event-list or table variable.
\<close>

definition plus_assign ::
    "('a \<Rightarrow> 'a \<Rightarrow> 'a) \<Rightarrow> ('a \<Rightarrow> Dimensions) \<Rightarrow> ('a \<Rightarrow> 'a \<Rightarrow> Dim \<Rightarrow> error + 'a)
       \<Rightarrow> 'a Variable \<Rightarrow> 'a Operand \<Rightarrow> 'a Variable \<times> error option" where
  "plus_assign op ds_dimensions ds_concatenate v other =
     (if m_unit v \<noteq> o_unit other then (v, Some UnitsDoNotMatch)
      else if m_type v \<noteq> Data_Events \<and> m_type v \<noteq> Data_Table then
        (if contains_dims (m_dimensions v) (o_dimensions other) then
           (case apply_op op v other of
              Inl e \<Rightarrow> (v, Some e)
            | Inr xs \<Rightarrow> (v\<lparr>m_model := xs\<rparr>, None))
         else (v, Some DimensionsDoNotMatch))
      else
        (if m_dimensions v = o_dimensions other then
           (let otherDatasets = operand_elems other (m_model v) in
            if length otherDatasets > 0 \<and> ndim (ds_dimensions (otherDatasets ! 0)) \<noteq> 1
            then (v, Some NestedDimensionMustBe1)
            else
              (case m_model v of
                 [] \<Rightarrow> (v, Some UndefinedBehaviour)
               | d0 # rest \<Rightarrow>
                   (case label (ds_dimensions d0) 0 of
                      Inl e \<Rightarrow> (v, Some e)
                    | Inr dm \<Rightarrow>
                        (case concatenate_events ds_concatenate dm (m_model v) otherDatasets of
                           (xs, r) \<Rightarrow> (v\<lparr>m_model := xs\<rparr>, r)))))
         else (v, Some DimensionsDoNotMatch)))"

text \<open>\<open>Variable::operator-=\<close>.\<close>

definition minus_assign ::
    "('a \<Rightarrow> 'a \<Rightarrow> 'a) \<Rightarrow> 'a Variable \<Rightarrow> 'a Operand \<Rightarrow> 'a Variable \<times> error option" where
  "minus_assign op v other =
     (if m_unit v \<noteq> o_unit other then (v, Some UnitsDoNotMatch)
      else if contains_dims (m_dimensions v) (o_dimensions other) then
        (if m_type v = Data_Events then (v, Some EventsSubtractionNotImplemented)
         else
           (case apply_op op v other of
              Inl e \<Rightarrow> (v, Some e)
            | Inr xs \<Rightarrow> (v\<lparr>m_model := xs\<rparr>, None)))
      else (v, Some DimensionsDoNotMatch))"

text \<open>\<open>Variable::operator*=\<close>: \<open>m_unit\<close> is assigned before the element-wise
  multiplication runs.  \<open>umul\<close> is the multiplication of units.\<close>

definition times_assign ::
    "(Unit \<Rightarrow> Unit \<Rightarrow> error + Unit) \<Rightarrow> ('a \<Rightarrow> 'a \<Rightarrow> 'a) \<Rightarrow> 'a Variable \<Rightarrow> 'a Operand
       \<Rightarrow> 'a Variable \<times> error option" where
  "times_assign umul op v other =
     (if \<not> contains_dims (m_dimensions v) (o_dimensions other) then (v, Some DimensionsDoNotMatch)
      else if m_type v = Data_Events then (v, Some EventsMultiplicationNotImplemented)
      else
        (case umul (m_unit v) (o_unit other) of
           Inl e \<Rightarrow> (v, Some e)
         | Inr u \<Rightarrow>
             (let v' = v\<lparr>m_unit := u\<rparr> in
              case apply_op op v' other of
                Inl e \<Rightarrow> (v', Some e)
              | Inr xs \<Rightarrow> (v'\<lparr>m_model := xs\<rparr>, None))))"

text \<open>
  Modelled from the spec: the multiplication table of \<open>unit.cpp\<close> is missing.  Unit
  multiplication is a closed-table lookup that fails with \<open>UnitArithmetic\<close> for an
  unknown product; \<open>TEST(Variable, operator_times_equal)\<close> has \<open>Length * Length = Area\<close>.
\<close>

fun unit_times :: "Unit \<Rightarrow> Unit \<Rightarrow> error + Unit" where
  "unit_times Dimensionless u = Inr u"
| "unit_times u Dimensionless = Inr u"
| "unit_times Length Length = Inr Area"
| "unit_times u u' = Inl UnitArithmetic"

text \<open>\<open>makeVariable<Data::Value>({{Dim::Y, 2}, {Dim::X, 2}}, {1.0, 2.0, 3.0, 4.0})\<close>.\<close>

definition var2x2 :: "real Variable" where
  "var2x2 = mkv [(Y, 2), (X, 2)] [1, 2, 3, 4]"

text \<open>\<open>makeVariable<Data::String>({Dim::X, 1}, {"test"})\<close> after \<open>setUnit(Unit::Id::Length)\<close>.\<close>

definition string_var :: "string Variable" where
  "string_var = \<lparr>m_type = Data_String, m_name = [], m_unit = Length,
                  m_dimensions = [(X, 1)], m_model = [''test'']\<rparr>"

text \<open>The elements after \<open>a += b\<close>, element \<open>k\<close> of \<open>a\<close> being at the multi-index
  \<open>coords (m_dimensions a) k\<close>.\<close>

definition broadcast_sum :: "real Variable \<Rightarrow> real Variable \<Rightarrow> real list" where
  "broadcast_sum a b =
     map (\<lambda>k. m_model a ! k
               + m_model b ! row_major (m_dimensions b) (coords (m_dimensions a) k))
       [0..<length (m_model a)]"

section \<open>Rebinning (variable.cpp)\<close>

text \<open>
  The inner \<open>while\<close> loop of \<open>RebinHelper::rebinInner\<close> for one value \<open>c\<close> of the outer
  loop, with \<open>oldOffset = c * oldSize\<close> and \<open>newOffset = c * newSize\<close>.  \<open>double\<close> is
  idealised as \<open>real\<close>; an index outside its buffer is \<open>UndefinedBehaviour\<close>.
\<close>

function rebinInner_loop ::
    "real list \<Rightarrow> real list \<Rightarrow> real list \<Rightarrow> nat \<Rightarrow> nat \<Rightarrow> nat \<Rightarrow> nat \<Rightarrow> nat \<Rightarrow> nat \<Rightarrow> real list
       \<Rightarrow> error + real list" where
  "rebinInner_loop xold xnew oldData oldOffset newOffset oldSize newSize iold inew newData =
     (if iold < oldSize \<and> inew < newSize then
        (if \<not> (iold + 1 < length xold \<and> inew + 1 < length xnew) then Inl UndefinedBehaviour
         else
           (let xo_low = xold ! iold; xo_high = xold ! (iold + 1);
                xn_low = xnew ! inew; xn_high = xnew ! (inew + 1) in
            if xn_high \<le> xo_low
            then rebinInner_loop xold xnew oldData oldOffset newOffset oldSize newSize
                   iold (inew + 1) newData
            else if xo_high \<le> xn_low
            then rebinInner_loop xold xnew oldData oldOffset newOffset oldSize newSize
                   (iold + 1) inew newData
            else if \<not> (oldOffset + iold < length oldData \<and> newOffset + inew < length newData)
            then Inl UndefinedBehaviour
            else
              (let delta = (if xo_high < xn_high then xo_high else xn_high)
                           - (if xo_low > xn_low then xo_low else xn_low);
                   owidth = xo_high - xo_low;
                   newData' = newData[newOffset + inew :=
                                newData ! (newOffset + inew)
                                + oldData ! (oldOffset + iold) * delta / owidth] in
               if xn_high > xo_high
               then rebinInner_loop xold xnew oldData oldOffset newOffset oldSize newSize
                      (iold + 1) inew newData'
               else rebinInner_loop xold xnew oldData oldOffset newOffset oldSize newSize
                      iold (inew + 1) newData')))
      else Inr newData)"
  by pat_completeness auto

termination
  by (relation "measure (\<lambda>(xold, xnew, oldData, oldOffset, newOffset, oldSize, newSize, iold,
                            inew, newData). (oldSize - iold) + (newSize - inew))") auto

text \<open>\<open>RebinHelper::rebinInner\<close>: \<open>count = volume / oldSize\<close> rows of \<open>oldSize\<close> elements
  each, all rebinned from the edges \<open>xold\<close> to the edges \<open>xnew\<close>, added to what
  \<open>newData\<close> holds.\<close>

definition rebinInner ::
    "Dim \<Rightarrow> Dimensions \<Rightarrow> real list \<Rightarrow> Dimensions \<Rightarrow> real list \<Rightarrow> real list \<Rightarrow> real list
       \<Rightarrow> error + real list" where
  "rebinInner dm oldDims oldData newDims newData xold xnew =
     (case size_of oldDims dm of
        Inl e \<Rightarrow> Inl e
      | Inr oldSize \<Rightarrow>
          (case size_of newDims dm of
             Inl e \<Rightarrow> Inl e
           | Inr newSize \<Rightarrow>
               if oldSize = 0 then Inl UndefinedBehaviour
               else
                 fold (\<lambda>c r. case r of
                          Inl e \<Rightarrow> Inl e
                        | Inr nd \<Rightarrow>
                            rebinInner_loop xold xnew oldData (c * oldSize) (c * newSize)
                              oldSize newSize 0 0 nd)
                   [0..<volume oldDims div oldSize] (Inr newData)))"

text \<open>
  \<open>RebinHelper::rebin\<close>, the general path.  \<open>oldIt\<close> and \<open>oldCoordIt\<close> start together and
  advance together, and so do \<open>newIt\<close> and \<open>newCoordIt\<close>; \<open>oview\<close> and \<open>nview\<close> are the
  positions of the two coordinate views in their buffers.  The position behind the
  last element of a view is fixed by \<open>variable_view.h\<close>, which is missing; asking for it
  is \<open>UndefinedBehaviour\<close> here.
\<close>

function RebinHelper_rebin ::
    "real list \<Rightarrow> real list \<Rightarrow> nat list \<Rightarrow> nat \<Rightarrow> real list \<Rightarrow> nat list \<Rightarrow> nat \<Rightarrow> nat \<Rightarrow> nat
       \<Rightarrow> real list \<Rightarrow> error + real list" where
  "RebinHelper_rebin oldModel xold oview oldOffset xnew nview newOffset oldIt newIt newModel =
     (if newIt < length newModel \<and> oldIt < length oldModel then
        (if \<not> (oldIt + 1 < length oview) then Inl UndefinedBehaviour
         else if oview ! (oldIt + 1) = oview ! oldIt + oldOffset
         then RebinHelper_rebin oldModel xold oview oldOffset xnew nview newOffset
                (oldIt + 1) newIt newModel
         else if \<not> (oview ! oldIt + oldOffset < length xold) then Inl UndefinedBehaviour
         else if \<not> (newIt + 1 < length nview) then Inl UndefinedBehaviour
         else if nview ! (newIt + 1) = nview ! newIt + newOffset
         then RebinHelper_rebin oldModel xold oview oldOffset xnew nview newOffset
                oldIt (newIt + 1) newModel
         else if \<not> (nview ! newIt + newOffset < length xnew) then Inl UndefinedBehaviour
         else
           (let xo_low = xold ! (oview ! oldIt); xo_high = xold ! (oview ! oldIt + oldOffset);
                xn_low = xnew ! (nview ! newIt); xn_high = xnew ! (nview ! newIt + newOffset) in
            if xn_high \<le> xo_low
            then RebinHelper_rebin oldModel xold oview oldOffset xnew nview newOffset
                   oldIt (newIt + 1) newModel
            else if xo_high \<le> xn_low
            then RebinHelper_rebin oldModel xold oview oldOffset xnew nview newOffset
                   (oldIt + 1) newIt newModel
            else
              (let delta = (if xo_high < xn_high then xo_high else xn_high)
                           - (if xo_low > xn_low then xo_low else xn_low);
                   newModel' = newModel[newIt :=
                                 newModel ! newIt + oldModel ! oldIt * delta / (xo_high - xo_low)] in
               if xn_high > xo_high
               then RebinHelper_rebin oldModel xold oview oldOffset xnew nview newOffset
                      (oldIt + 1) newIt newModel'
               else RebinHelper_rebin oldModel xold oview oldOffset xnew nview newOffset
                      oldIt (newIt + 1) newModel')))
      else Inr newModel)"
  by pat_completeness auto

termination
  by (relation "measure (\<lambda>(oldModel, xold, oview, oldOffset, xnew, nview, newOffset, oldIt,
                            newIt, newModel).
                   (length oldModel - oldIt) + (length newModel - newIt))") auto

text \<open>
  \<open>VariableModel<T>::rebin\<close>: \<open>rebinInner\<close> is taken when \<open>dim\<close> is \<open>label(0)\<close> of the
  dimensions of \<open>*this\<close> and both coordinates are one-dimensional.  \<open>dims\<close> and \<open>newData\<close>
  are the dimensions and the buffer of \<open>*this\<close>.
\<close>

definition VariableModel_rebin ::
    "Dimensions \<Rightarrow> real list \<Rightarrow> Dimensions \<Rightarrow> real list \<Rightarrow> Dim \<Rightarrow> Dimensions \<Rightarrow> real list
       \<Rightarrow> Dimensions \<Rightarrow> real list \<Rightarrow> error + real list" where
  "VariableModel_rebin dims newData oldDims oldData dm oldCoordDims xold newCoordDims xnew =
     (if label dims 0 = Inr dm \<and> ndim oldCoordDims = 1 \<and> ndim newCoordDims = 1
      then rebinInner dm oldDims oldData dims newData xold xnew
      else
        (case size_of oldCoordDims dm of
           Inl e \<Rightarrow> Inl e
         | Inr so \<Rightarrow>
        (case resize oldCoordDims dm (int so - 1) of
           Inl e \<Rightarrow> Inl e
         | Inr oldCoordDims' \<Rightarrow>
        (case size_of newCoordDims dm of
           Inl e \<Rightarrow> Inl e
         | Inr sn \<Rightarrow>
        (case resize newCoordDims dm (int sn - 1) of
           Inl e \<Rightarrow> Inl e
         | Inr newCoordDims' \<Rightarrow>
        (case offset oldCoordDims' dm of
           Inl e \<Rightarrow> Inl e
         | Inr oldOffset \<Rightarrow>
        (case offset newCoordDims' dm of
           Inl e \<Rightarrow> Inl e
         | Inr newOffset \<Rightarrow>
             RebinHelper_rebin oldData xold (makeVariableView 0 dims oldCoordDims) oldOffset
               xnew (makeVariableView 0 dims newCoordDims) newOffset 0 0 newData)))))))"

text \<open>
  \<open>rebin(var, oldCoord, newCoord)\<close>: a copy of \<open>var\<close> gets the extent of \<open>dim\<close> replaced
  by the number of new bins (\<open>setDimensions\<close> keeps the elements of the copy when this
  changes nothing, and allocates zeros otherwise) and is handed to
  \<open>VariableModel::rebin\<close>.  The \<open>dynamic_cast\<close>s there need the three element types to be
  equal.
\<close>

definition rebin :: "real Variable \<Rightarrow> real Variable \<Rightarrow> real Variable \<Rightarrow> error + real Variable" where
  "rebin var oldCoord newCoord =
     (let dm = coordDimension (m_type newCoord) in
      case size_of (m_dimensions newCoord) dm of
        Inl e \<Rightarrow> Inl e
      | Inr n \<Rightarrow>
     (case resize (m_dimensions var) dm (int n - 1) of
        Inl e \<Rightarrow> Inl e
      | Inr dims \<Rightarrow>
          (let rebinned = setDimensions 0 var dims in
           if elem_type (m_type oldCoord) = elem_type (m_type var)
              \<and> elem_type (m_type newCoord) = elem_type (m_type var)
           then
             (case VariableModel_rebin (m_dimensions rebinned) (m_model rebinned)
                     (m_dimensions var) (m_model var) dm
                     (m_dimensions oldCoord) (m_model oldCoord)
                     (m_dimensions newCoord) (m_model newCoord) of
                Inl e \<Rightarrow> Inl e
              | Inr xs \<Rightarrow> Inr (rebinned\<lparr>m_model := xs\<rparr>))
           else Inl UnderlyingTypesDoNotMatch)))"

text \<open>\<open>makeVariable<Coord::X>({Dim::X, n}, edges)\<close>.\<close>

definition edges_X :: "real list \<Rightarrow> real Variable" where
  "edges_X xs = \<lparr>m_type = Coord_X, m_name = [], m_unit = Dimensionless,
                 m_dimensions = [(X, length xs)], m_model = xs\<rparr>"

text \<open>
  The value of output bin \<open>n\<close> in the words of the specification: the sum over the input
  bins \<open>i\<close> of \<open>v i * max 0 (min xo_hi xn_hi - max xo_lo xn_lo) / (xo_hi - xo_lo)\<close>.
\<close>

definition rebinned_value :: "real list \<Rightarrow> real list \<Rightarrow> (nat \<Rightarrow> real) \<Rightarrow> nat \<Rightarrow> real" where
  "rebinned_value xold xnew v n =
     (\<Sum>i < length xold - 1.
        v i * max 0 (min (xold ! (i + 1)) (xnew ! (n + 1)) - max (xold ! i) (xnew ! n))
          / (xold ! (i + 1) - xold ! i))"

section \<open>Equality (variable.cpp)\<close>

text \<open>
  \<open>VariableModel<T>::operator==\<close> for two owning models: equal dimensions, and then
  \<open>std::equal\<close> over the elements with the \<open>operator==\<close> of the element type, \<open>eq\<close>.
\<close>

definition VariableModel_equal ::
    "('a \<Rightarrow> 'a \<Rightarrow> bool) \<Rightarrow> Dimensions \<Rightarrow> 'a list \<Rightarrow> Dimensions \<Rightarrow> 'a list \<Rightarrow> bool" where
  "VariableModel_equal eq dims xs odims ys =
     (if dims = odims
      then (if isContiguousIn dims odims then equal_elems eq xs ys
            else equal_elems eq xs (map (\<lambda>k. ys ! k) (makeVariableView 0 dims odims)))
      else False)"

text \<open>
  \<open>Variable::operator==\<close>: names and units are compared first; two variables that hold
  the same buffer object (\<open>m_object == other.m_object\<close>, here \<open>same_object\<close>) are equal
  without a look at the elements; otherwise tag, dimensions and elements are compared.
\<close>

definition Variable_equal ::
    "('a \<Rightarrow> 'a \<Rightarrow> bool) \<Rightarrow> bool \<Rightarrow> 'a Variable \<Rightarrow> 'a Variable \<Rightarrow> bool" where
  "Variable_equal eq same_object a b =
     (if m_name a = m_name b \<and> m_unit a = m_unit b
      then (if same_object then True
            else if m_type a = m_type b \<and> m_dimensions a = m_dimensions b
            then VariableModel_equal eq (m_dimensions a) (m_model a) (m_dimensions b) (m_model b)
            else False)
      else False)"

text \<open>\<open>makeVariable<Coord::FuzzyTemperature>({Dim::X, 2})\<close>: two value-initialised
  elements, each with value 0 and delta 0.\<close>

definition fuzzy :: "ValueWithDelta Variable" where
  "fuzzy = \<lparr>m_type = Coord_FuzzyTemperature, m_name = [], m_unit = Dimensionless,
            m_dimensions = [(X, 2)], m_model = [ValueWithDelta_default, ValueWithDelta_default]\<rparr>"

text \<open>\<open>makeVariable<Data::Events>({Dim::Spectrum, 0})\<close>: a \<open>Data::Events\<close> variable for
  no spectra; it holds no event list.\<close>

definition no_spectra :: "'a Variable" where
  "no_spectra = \<lparr>m_type = Data_Events, m_name = [], m_unit = Dimensionless,
                 m_dimensions = [(Spectrum, 0)], m_model = []\<rparr>"

section \<open>Results\<close>

lemma check_slots_None:
  "check_slots dims = None \<longleftrightarrow> (\<forall>(d, n) \<in> set dims. d \<noteq> Invalid \<and> 0 \<le> n)"
  by (induction dims rule: check_slots.induct) auto

lemma Dimensions_init_fails_iff:
  "(\<exists>e. Dimensions_init dims = Inl e) \<longleftrightarrow>
     (length dims > 6 \<or> (\<exists>(d, n) \<in> set dims. d = Invalid \<or> n < 0))"
proof (cases "check_slots dims")
  case None
  then show ?thesis
    using check_slots_None [of dims] by (auto simp: Dimensions_init_def)
next
  case (Some e)
  then have "\<not> (\<forall>(d, n) \<in> set dims. d \<noteq> Invalid \<and> 0 \<le> n)"
    using check_slots_None [of dims] by simp
  then have "\<exists>(d, n) \<in> set dims. d = Invalid \<or> n < 0"
    by fastforce
  with Some show ?thesis
    by (simp add: Dimensions_init_def)
qed

text \<open>
  C8 (code evaluated at the failing input).  The constructor has no duplicate check
  (its first line is \<open>// TODO Check for duplicate dimension\<close>): the list
  \<open>{{Dim::X, 2}, {Dim::X, 3}}\<close> is accepted and the constructed object holds
  \<open>Dim::X\<close> twice.
\<close>

theorem Dimensions_init_accepts_duplicate:
  "Dimensions_init [(X, 2), (X, 3)] = Inr [(X, 2), (X, 3)]
   \<and> \<not> distinct (labels [(X, 2), (X, 3)])"
  by (simp add: Dimensions_init_def labels_def)

text \<open>
  C10.  Two \<open>ValueWithDelta\<close> compare equal iff the distance of the values is strictly
  below the larger delta.  Hence a value with delta 0 (the default-constructed one among
  them) is unequal to itself, and the comparison is not transitive; a buffer of such
  elements is then unequal to itself under the element-wise comparison.
\<close>

theorem vwd_eq_approximate:
  "(vwd_eq a b \<longleftrightarrow> \<bar>m_value a - m_value b\<bar> < max (m_delta a) (m_delta b))
   \<and> \<not> vwd_eq \<lparr>m_value = v, m_delta = 0\<rparr> \<lparr>m_value = v, m_delta = 0\<rparr>
   \<and> \<not> vwd_eq ValueWithDelta_default ValueWithDelta_default
   \<and> (vwd_eq \<lparr>m_value = 0, m_delta = 1\<rparr> \<lparr>m_value = 1 / 2, m_delta = 1\<rparr>
      \<and> vwd_eq \<lparr>m_value = 1 / 2, m_delta = 1\<rparr> \<lparr>m_value = 1, m_delta = 1\<rparr>
      \<and> \<not> vwd_eq \<lparr>m_value = 0, m_delta = 1\<rparr> \<lparr>m_value = 1, m_delta = 1\<rparr>)
   \<and> \<not> equal_elems vwd_eq [ValueWithDelta_default] [ValueWithDelta_default]"
  by (simp add: vwd_eq_def ValueWithDelta_default_def equal_elems_def)

lemma volume_Nil [simp]: "volume [] = 1"
  by (simp add: volume_def)

lemma volume_Cons [simp]: "volume ((d, n) # rest) = n * volume rest"
  by (simp add: volume_def)

lemma valid_index_Nil [simp]: "valid_index [] c"
  by (simp add: valid_index_def)

lemma valid_index_Cons [simp]:
  "valid_index ((d, n) # rest) c \<longleftrightarrow> c d < n \<and> valid_index rest c"
  by (simp add: valid_index_def)

lemma contains_Nil [simp]: "\<not> contains [] d"
  by (simp add: contains_def)

lemma contains_Cons [simp]: "contains ((d', n) # rest) d \<longleftrightarrow> d' = d \<or> contains rest d"
  by (auto simp: contains_def)

lemma length_concat_blocks:
  "(\<And>i. i < n \<Longrightarrow> length (f i) = k) \<Longrightarrow> length (concat (map f [0..<n])) = n * k"
  by (induction n) simp_all

lemma nth_concat_blocks:
  assumes "\<And>i. i < n \<Longrightarrow> length (f i) = k" and "i < n" and "j < k"
  shows "concat (map f [0..<n]) ! (i * k + j) = f i ! j"
  using assms
proof (induction n)
  case 0
  then show ?case by simp
next
  case (Suc n)
  have len: "length (concat (map f [0..<n])) = n * k"
    using Suc.prems(1) by (intro length_concat_blocks) simp
  show ?case
  proof (cases "i < n")
    case True
    then have "i * k + j < n * k"
    proof -
      from True have "Suc i \<le> n" by simp
      then have "Suc i * k \<le> n * k" by (rule mult_le_mono1)
      with \<open>j < k\<close> show ?thesis by simp
    qed
    with Suc True len show ?thesis
      by (simp add: nth_append)
  next
    case False
    with Suc.prems have "i = n" by simp
    with len Suc.prems show ?thesis
      by (simp add: nth_append)
  qed
qed

lemma length_view_offsets [simp]: "length (view_offsets t str base) = volume t"
proof (induction t arbitrary: base)
  case Nil
  then show ?case by simp
next
  case (Cons p t)
  obtain d n where p: "p = (d, n)" by (cases p)
  show ?case unfolding p
    by (simp add: length_concat_blocks [where k = "volume t"] Cons.IH)
qed

lemma row_major_less: "valid_index t c \<Longrightarrow> row_major t c < volume t"
proof (induction t)
  case Nil
  then show ?case by simp
next
  case (Cons p t)
  obtain d n where p: "p = (d, n)" by (cases p)
  from Cons.prems have cd: "c d < n" and v: "valid_index t c" by (simp_all add: p)
  from Cons.IH [OF v] have r: "row_major t c < volume t" .
  from cd have "Suc (c d) \<le> n" by simp
  then have "Suc (c d) * volume t \<le> n * volume t" by (rule mult_le_mono1)
  with r show ?case by (simp add: p)
qed

lemma view_offsets_nth:
  "valid_index t c \<Longrightarrow> view_offsets t str base ! row_major t c = base + strided t str c"
proof (induction t arbitrary: base)
  case Nil
  then show ?case by simp
next
  case (Cons p t)
  obtain d n where p: "p = (d, n)" by (cases p)
  from Cons.prems have cd: "c d < n" and v: "valid_index t c" by (simp_all add: p)
  have "concat (map (\<lambda>i. view_offsets t str (base + i * str d)) [0..<n])
          ! (c d * volume t + row_major t c)
        = view_offsets t str (base + c d * str d) ! row_major t c"
    by (rule nth_concat_blocks) (simp_all add: cd row_major_less [OF v])
  then show ?case
    by (simp add: p Cons.IH [OF v])
qed

lemma valid_index_cong:
  "(\<And>d. d \<in> set (map fst t) \<Longrightarrow> c1 d = c2 d) \<Longrightarrow> valid_index t c1 = valid_index t c2"
  by (induction t) (auto simp: valid_index_def)

lemma row_major_cong:
  "(\<And>d. d \<in> set (map fst t) \<Longrightarrow> c1 d = c2 d) \<Longrightarrow> row_major t c1 = row_major t c2"
  by (induction t) auto

lemma valid_index_upd_other:
  "d \<notin> set (map fst t) \<Longrightarrow> valid_index t (c(d := x)) = valid_index t c"
  by (induction t) (auto simp: valid_index_def)

lemma row_major_upd_other:
  "d \<notin> set (map fst t) \<Longrightarrow> row_major t (c(d := x)) = row_major t c"
  by (induction t) auto

lemma strided_upd_other:
  "d \<notin> set (map fst t) \<Longrightarrow> strided t str (c(d := x)) = strided t str c"
  by (induction t) auto

lemma coords_valid:
  "distinct (map fst t) \<Longrightarrow> k < volume t \<Longrightarrow> valid_index t (coords t k)"
proof (induction t arbitrary: k)
  case Nil
  then show ?case by simp
next
  case (Cons p t)
  obtain d n where p: "p = (d, n)" by (cases p)
  from Cons.prems have dist: "distinct (map fst t)" and dn: "d \<notin> set (map fst t)"
    and k: "k < n * volume t" by (simp_all add: p)
  from k have pos: "0 < volume t" by (cases "volume t") simp_all
  from k have "k div volume t < n"
    by (simp add: less_mult_imp_div_less)
  moreover have "valid_index t (coords t (k mod volume t))"
    using dist pos by (intro Cons.IH) simp_all
  moreover have "valid_index t (\<lambda>a. if a = d then k div volume t else coords t (k mod volume t) a)
      = valid_index t (coords t (k mod volume t))"
    using dn by (intro valid_index_cong) auto
  ultimately show ?case
    by (simp add: p)
qed

lemma coords_row_major:
  "distinct (map fst t) \<Longrightarrow> k < volume t \<Longrightarrow> row_major t (coords t k) = k"
proof (induction t arbitrary: k)
  case Nil
  then show ?case by simp
next
  case (Cons p t)
  obtain d n where p: "p = (d, n)" by (cases p)
  from Cons.prems have dist: "distinct (map fst t)" and dn: "d \<notin> set (map fst t)"
    and k: "k < n * volume t" by (simp_all add: p)
  from k have pos: "0 < volume t" by (cases "volume t") simp_all
  have "row_major t (coords t (k mod volume t)) = k mod volume t"
    using dist pos by (intro Cons.IH) simp_all
  moreover have "row_major t (\<lambda>a. if a = d then k div volume t else coords t (k mod volume t) a)
      = row_major t (coords t (k mod volume t))"
    using dn by (intro row_major_cong) auto
  ultimately show ?case
    by (simp add: p)
qed

lemma row_major_inj:
  "valid_index t c1 \<Longrightarrow> valid_index t c2 \<Longrightarrow> row_major t c1 = row_major t c2
     \<Longrightarrow> d \<in> set (map fst t) \<Longrightarrow> c1 d = c2 d"
proof (induction t)
  case Nil
  then show ?case by simp
next
  case (Cons p t)
  obtain d' n where p: "p = (d', n)" by (cases p)
  from Cons.prems have v1: "valid_index t c1" and v2: "valid_index t c2" by (simp_all add: p)
  have r1: "row_major t c1 < volume t" and r2: "row_major t c2 < volume t"
    using v1 v2 by (simp_all add: row_major_less)
  from Cons.prems(3) have eq: "c1 d' * volume t + row_major t c1 = c2 d' * volume t + row_major t c2"
    by (simp add: p)
  have "(c1 d' * volume t + row_major t c1) div volume t = c1 d'"
    using r1 by simp
  moreover have "(c2 d' * volume t + row_major t c2) div volume t = c2 d'"
    using r2 by simp
  ultimately have hd: "c1 d' = c2 d'" using eq by simp
  with eq have tl: "row_major t c1 = row_major t c2" by simp
  show ?case
  proof (cases "d = d'")
    case True
    with hd show ?thesis by simp
  next
    case False
    with Cons.prems(4) have "d \<in> set (map fst t)" by (simp add: p)
    with Cons.IH v1 v2 tl show ?thesis by simp
  qed
qed

lemma extent_after_Cons_other:
  "d \<noteq> d' \<Longrightarrow> extent_after ((d', n) # rest) d = extent_after rest d"
  by simp

lemma strided_cong:
  "(\<And>d. d \<in> set (map fst t) \<Longrightarrow> str1 d = str2 d) \<Longrightarrow> strided t str1 c = strided t str2 c"
  by (induction t) auto

lemma strided_same_labels_aux:
  "map fst t = map fst p \<Longrightarrow> distinct (map fst p)
     \<Longrightarrow> (\<And>d. d \<in> set (map fst p) \<Longrightarrow> str d = extent_after p d)
     \<Longrightarrow> strided t str c = row_major p c"
proof (induction p arbitrary: t)
  case Nil
  then show ?case by simp
next
  case (Cons q p)
  obtain d n where q: "q = (d, n)" by (cases q)
  from Cons.prems(1) obtain m t' where t: "t = (d, m) # t'" and lab: "map fst t' = map fst p"
    by (cases t) (auto simp: q)
  from Cons.prems(2) have dn: "d \<notin> set (map fst p)" and dist: "distinct (map fst p)"
    by (simp_all add: q)
  have hd: "str d = volume p"
    using Cons.prems(3) [of d] by (simp add: q)
  have "strided t' str c = row_major p c"
  proof (rule Cons.IH [OF lab dist])
    fix d' assume d': "d' \<in> set (map fst p)"
    with dn have "d' \<noteq> d" by auto
    with Cons.prems(3) [of d'] d' show "str d' = extent_after p d'"
      by (simp add: q)
  qed
  with hd show ?case by (simp add: t q)
qed

lemma stride_eq: "d \<in> set (map fst p) \<Longrightarrow> stride p d = extent_after p d"
  by (simp add: stride_def contains_def)

lemma stride_absent: "d \<notin> set (map fst p) \<Longrightarrow> stride p d = 0"
  by (simp add: stride_def contains_def)

lemma strided_same_labels:
  "map fst t = map fst p \<Longrightarrow> distinct (map fst p) \<Longrightarrow> strided t (stride p) c = row_major p c"
  by (rule strided_same_labels_aux) (simp_all add: stride_eq)

lemma strided_sum:
  "distinct (map fst t) \<Longrightarrow> strided t str c = (\<Sum>d \<in> set (map fst t). c d * str d)"
  by (induction t) auto

lemma strided_perm:
  assumes "distinct (map fst t)" and "distinct (map fst p)"
    and "set (map fst p) \<subseteq> set (map fst t)"
  shows "strided t (stride p) c = row_major p c"
proof -
  have "strided t (stride p) c = (\<Sum>d \<in> set (map fst t). c d * stride p d)"
    using assms(1) by (rule strided_sum)
  also have "\<dots> = (\<Sum>d \<in> set (map fst p). c d * stride p d)"
    by (rule sum.mono_neutral_right) (use assms(3) in \<open>auto simp: stride_absent\<close>)
  also have "\<dots> = strided p (stride p) c"
    using assms(2) by (rule strided_sum [symmetric])
  also have "\<dots> = row_major p c"
    using assms(2) by (intro strided_same_labels) simp
  finally show ?thesis .
qed

lemma row_major_shift:
  "distinct (map fst p) \<Longrightarrow> d \<in> set (map fst p) \<Longrightarrow> c' d = c d + k
     \<Longrightarrow> (\<And>d'. d' \<noteq> d \<Longrightarrow> c' d' = c d')
     \<Longrightarrow> row_major p c' = k * extent_after p d + row_major p c"
proof (induction p)
  case Nil
  then show ?case by simp
next
  case (Cons q p)
  obtain d' n where q: "q = (d', n)" by (cases q)
  show ?case
  proof (cases "d' = d")
    case True
    with Cons.prems have "d \<notin> set (map fst p)" by (simp add: q)
    then have "row_major p c' = row_major p c"
      using Cons.prems(4) by (intro row_major_cong) force
    then show ?thesis
      using Cons.prems(3) by (simp add: q True algebra_simps)
  next
    case False
    with Cons.prems have "d \<in> set (map fst p)" "distinct (map fst p)" by (auto simp: q)
    then have "row_major p c' = k * extent_after p d + row_major p c"
      using Cons.prems(3,4) by (intro Cons.IH) auto
    with False Cons.prems(4) [of d'] show ?thesis by (simp add: q)
  qed
qed

lemma length_write_all [simp]: "length (write_all dst ws) = length dst"
  unfolding write_all_def by (induction ws arbitrary: dst) auto

lemma write_all_other:
  "t \<notin> fst ` set ws \<Longrightarrow> write_all dst ws ! t = dst ! t"
  unfolding write_all_def by (induction ws arbitrary: dst) auto

lemma write_all_hit:
  "distinct (map fst ws) \<Longrightarrow> (t, v) \<in> set ws \<Longrightarrow> t < length dst \<Longrightarrow> write_all dst ws ! t = v"
proof (induction ws arbitrary: dst)
  case Nil
  then show ?case by simp
next
  case (Cons w ws)
  obtain t' v' where w: "w = (t', v')" by (cases w)
  have step: "write_all dst (w # ws) = write_all (dst[t' := v']) ws"
    by (simp add: write_all_def w)
  show ?case
  proof (cases "(t, v) \<in> set ws")
    case True
    with Cons show ?thesis unfolding step by simp
  next
    case False
    with Cons.prems have tv: "t = t'" "v = v'" by (simp_all add: w)
    from Cons.prems(1) have "t' \<notin> fst ` set ws" by (simp add: w)
    then have "write_all (dst[t' := v']) ws ! t' = dst[t' := v'] ! t'"
      by (rule write_all_other)
    with Cons.prems(3) tv show ?thesis unfolding step by simp
  qed
qed

lemma map_fst_set_extent [simp]: "map fst (set_extent dims d n) = map fst dims"
  by (induction dims) auto

lemma fst_image_set_extent [simp]: "fst ` set (set_extent dims d n) = fst ` set dims"
  using map_fst_set_extent [of dims d n] by (metis set_map)

lemma contains_set_extent [simp]: "contains (set_extent dims d n) d' = contains dims d'"
  by (simp add: contains_def)

lemma length_set_extent [simp]: "length (set_extent dims d n) = length dims"
  by (induction dims) auto

lemma extent_of_set_extent_same:
  "contains dims d \<Longrightarrow> extent_of (set_extent dims d n) d = n"
  by (induction dims) auto

lemma extent_of_set_extent_other:
  "d' \<noteq> d \<Longrightarrow> extent_of (set_extent dims d n) d' = extent_of dims d'"
  by (induction dims) auto

lemma set_extent_same:
  "contains dims d \<Longrightarrow> set_extent dims d n = dims \<longleftrightarrow> extent_of dims d = n"
  by (induction dims) auto

lemma valid_index_extent:
  "distinct (map fst dims) \<Longrightarrow>
     valid_index dims c \<longleftrightarrow> (\<forall>d \<in> set (map fst dims). c d < extent_of dims d)"
proof (induction dims)
  case Nil
  then show ?case by simp
next
  case (Cons p dims)
  obtain d n where p: "p = (d, n)" by (cases p)
  from Cons.prems have dn: "d \<notin> set (map fst dims)" and dist: "distinct (map fst dims)"
    by (simp_all add: p)
  have "(\<forall>d' \<in> set (map fst dims). c d' < extent_of ((d, n) # dims) d')
          \<longleftrightarrow> (\<forall>d' \<in> set (map fst dims). c d' < extent_of dims d')"
    using dn by (intro ball_cong) auto
  with Cons.IH [OF dist] show ?case
    by (simp add: p)
qed

lemma valid_index_extentD:
  "distinct (map fst dims) \<Longrightarrow> valid_index dims c \<Longrightarrow> d \<in> set (map fst dims)
     \<Longrightarrow> c d < extent_of dims d"
  using valid_index_extent [of dims c] by blast

lemma valid_index_extentI:
  "distinct (map fst dims) \<Longrightarrow> (\<And>d. d \<in> set (map fst dims) \<Longrightarrow> c d < extent_of dims d)
     \<Longrightarrow> valid_index dims c"
  using valid_index_extent [of dims c] by blast

lemma view_offsets_identity:
  assumes "distinct (map fst dims)"
  shows "view_offsets dims (stride dims) 0 = [0..<volume dims]"
proof (rule nth_equalityI)
  show "length (view_offsets dims (stride dims) 0) = length [0..<volume dims]" by simp
next
  fix k assume "k < length (view_offsets dims (stride dims) 0)"
  then have k: "k < volume dims" by simp
  have v: "valid_index dims (coords dims k)" and r: "row_major dims (coords dims k) = k"
    using assms k by (simp_all add: coords_valid coords_row_major)
  have "view_offsets dims (stride dims) 0 ! row_major dims (coords dims k)
          = 0 + strided dims (stride dims) (coords dims k)"
    using v by (rule view_offsets_nth)
  also have "\<dots> = row_major dims (coords dims k)"
    using assms by (simp add: strided_same_labels)
  finally show "view_offsets dims (stride dims) 0 ! k = [0..<volume dims] ! k"
    using r k by simp
qed

text \<open>The positions of a slab of \<open>dims\<close> along \<open>dm\<close>, seen from the slab's own index.\<close>

lemma slab_target:
  assumes dist: "distinct (map fst dims)" and dm: "dm \<in> set (map fst dims)"
    and v: "valid_index (set_extent dims dm delta) ci"
  shows "view_offsets (set_extent dims dm delta) (stride dims) (off * extent_after dims dm)
           ! row_major (set_extent dims dm delta) ci
         = row_major dims (\<lambda>d. if d = dm then ci dm + off else ci d)"
proof -
  have "view_offsets (set_extent dims dm delta) (stride dims) (off * extent_after dims dm)
           ! row_major (set_extent dims dm delta) ci
        = off * extent_after dims dm + strided (set_extent dims dm delta) (stride dims) ci"
    using v by (rule view_offsets_nth)
  also have "strided (set_extent dims dm delta) (stride dims) ci = row_major dims ci"
    using dist by (intro strided_same_labels) simp_all
  also have "off * extent_after dims dm + row_major dims ci
               = row_major dims (\<lambda>d. if d = dm then ci dm + off else ci d)"
    using dist dm by (intro row_major_shift [symmetric]) simp_all
  finally show ?thesis .
qed

lemma slab_source:
  assumes dist: "distinct (map fst dims)" and odist: "distinct (map fst odims)"
    and sub: "set (map fst odims) \<subseteq> set (map fst dims)"
    and v: "valid_index (set_extent dims dm delta) ci"
    and ob: "dm \<notin> set (map fst odims) \<Longrightarrow> ob = 0"
  shows "view_offsets (set_extent dims dm delta) (stride odims)
            (if contains odims dm then ob * extent_after odims dm else ob * volume odims)
           ! row_major (set_extent dims dm delta) ci
         = row_major odims (\<lambda>d. if d = dm then ci dm + ob else ci d)"
proof -
  let ?base = "if contains odims dm then ob * extent_after odims dm else ob * volume odims"
  have "view_offsets (set_extent dims dm delta) (stride odims) ?base
           ! row_major (set_extent dims dm delta) ci
        = ?base + strided (set_extent dims dm delta) (stride odims) ci"
    using v by (rule view_offsets_nth)
  also have "strided (set_extent dims dm delta) (stride odims) ci = row_major odims ci"
    using dist odist sub by (intro strided_perm) simp_all
  also have "?base + row_major odims ci
               = row_major odims (\<lambda>d. if d = dm then ci dm + ob else ci d)"
  proof (cases "dm \<in> set (map fst odims)")
    case True
    then have "row_major odims (\<lambda>d. if d = dm then ci dm + ob else ci d)
                 = ob * extent_after odims dm + row_major odims ci"
      using odist by (intro row_major_shift) simp_all
    with True show ?thesis by (simp add: contains_def)
  next
    case False
    then have "row_major odims (\<lambda>d. if d = dm then ci dm + ob else ci d) = row_major odims ci"
      by (intro row_major_cong) auto
    with False ob show ?thesis by (simp add: contains_def)
  qed
  finally show ?thesis .
qed

lemma contains_iff: "contains dims d \<longleftrightarrow> d \<in> set (map fst dims)"
  by (simp add: contains_def)

lemma isContiguousIn_same_length:
  "length t = length p \<Longrightarrow> isContiguousIn t p \<longleftrightarrow> t = p"
  by (auto simp: isContiguousIn_def)

lemma length_le_of_labels_subset:
  assumes "distinct (map fst odims)" and "set (map fst odims) \<subseteq> set (map fst dims)"
  shows "length odims \<le> length dims"
proof -
  have "length odims = card (set (map fst odims))"
    using assms(1) by (metis distinct_card length_map)
  also have "\<dots> \<le> card (set (map fst dims))"
    using assms(2) by (intro card_mono) simp_all
  also have "\<dots> \<le> length dims"
    by (metis card_length length_map)
  finally show ?thesis .
qed

lemma isContiguousIn_labels_subset:
  assumes "distinct (map fst odims)" and "set (map fst odims) \<subseteq> set (map fst t)"
    and "t \<noteq> []" and "isContiguousIn t odims"
  shows "odims = t"
proof -
  from assms(3,4) have le: "length t \<le> length odims"
    and dr: "drop (length odims - length t) odims = t"
    by (simp_all add: isContiguousIn_def)
  have "length odims \<le> length t"
    using assms(1,2) by (rule length_le_of_labels_subset)
  with le have "length odims - length t = 0" by simp
  then have "drop (length odims - length t) odims = odims" by (simp only: drop_0)
  with dr show ?thesis by (simp only:)
qed

lemma copy_as_views:
  fixes data :: "'a list"
  assumes dist: "distinct (map fst dims)" and odist: "distinct (map fst odims)"
    and len: "length data = volume dims" and olen: "length odata = volume odims"
    and dm: "contains dims dm"
    and be: "ob \<le> oe" and fit: "off + (oe - ob) \<le> extent_of dims dm"
    and sub: "set (map fst odims) \<subseteq> set (map fst dims)"
    and src: "if contains odims dm then oe \<le> extent_of odims dm else ob = 0 \<and> oe = 1"
  shows "copy dims data odims odata dm off ob oe =
           CopyHelper_copy odata
             (view_offsets (set_extent dims dm (oe - ob)) (stride odims)
                (if contains odims dm then ob * extent_after odims dm else ob * volume odims))
             data
             (view_offsets (set_extent dims dm (oe - ob)) (stride dims)
                (off * extent_after dims dm))"
proof -
  let ?iter = "set_extent dims dm (oe - ob)"
  let ?S = "view_offsets ?iter (stride odims)
              (if contains odims dm then ob * extent_after odims dm else ob * volume odims)"
  let ?T = "view_offsets ?iter (stride dims) (off * extent_after dims dm)"
  have delta: "nat (int oe - int ob) = oe - ob" "\<not> int oe - int ob < 0"
    using be by simp_all
  have rs: "resize dims dm (int oe - int ob) = Inr ?iter"
    using dm delta by (simp add: resize_def)
  have ne: "?iter \<noteq> []"
    using dm by (cases dims) (auto split: if_splits)
  have cT: "isContiguousIn ?iter dims \<longleftrightarrow> extent_of dims dm = oe - ob"
    using dm by (simp add: isContiguousIn_same_length set_extent_same)
  have ov: "getView odims ?iter dm ob = ?S"
    by (simp add: getView_def makeVariableView_def)
  have tv: "getView dims ?iter dm off = ?T"
    using dm by (simp add: getView_def makeVariableView_def)
  have target: "getSpan dims (length data) dm off (off + (oe - ob)) = Inr ?T"
    if e: "extent_of dims dm = oe - ob"
  proof -
    from e have same: "?iter = dims"
      using dm by (simp add: set_extent_same)
    from e fit have off0: "off = 0" by simp
    have "view_offsets dims (stride dims) 0 = [0..<volume dims]"
      using dist by (rule view_offsets_identity)
    then have "?T = [0..<volume dims]"
      unfolding same off0 by simp
    with dm e len off0 show ?thesis
      by (simp add: getSpan_def span_def)
  qed
  have source: "getSpan odims (length odata) dm ob oe = Inr ?S"
    if c: "isContiguousIn ?iter odims"
  proof -
    from c odist sub ne have same: "odims = ?iter"
      by (intro isContiguousIn_labels_subset) simp_all
    have c: "contains odims dm"
      using dm by (subst same) (simp add: contains_def)
    have e: "extent_of odims dm = oe - ob"
      using dm by (subst same) (simp add: extent_of_set_extent_same)
    with src c have ob0: "ob = 0" using be by simp
    have "view_offsets odims (stride odims) 0 = [0..<volume odims]"
      using odist by (rule view_offsets_identity)
    then have "view_offsets ?iter (stride odims) 0 = [0..<volume odims]"
      using same by simp
    then have "?S = [0..<volume odims]"
      using c ob0 by simp
    with c e ob0 olen be show ?thesis
      by (simp add: getSpan_def span_def)
  qed
  show ?thesis
  proof (cases "extent_of dims dm = oe - ob")
    case True
    show ?thesis
    proof (cases "isContiguousIn ?iter odims")
      case c: True
      show ?thesis
        unfolding copy_def Let_def
        by (simp add: dm rs cT True c delta target [OF True] source [OF c])
    next
      case c: False
      show ?thesis
        unfolding copy_def Let_def
        by (simp add: dm rs cT True c delta target [OF True] ov)
    qed
  next
    case False
    show ?thesis
    proof (cases "isContiguousIn ?iter odims")
      case c: True
      show ?thesis
        unfolding copy_def Let_def
        by (simp add: dm rs cT False c delta source [OF c] tv)
    next
      case c: False
      show ?thesis
        unfolding copy_def Let_def
        by (simp add: dm rs cT False c delta ov tv)
    qed
  qed
qed

lemma copy_slab:
  fixes data :: "'a list"
  assumes dist: "distinct (map fst dims)" and odist: "distinct (map fst odims)"
    and len: "length data = volume dims" and olen: "length odata = volume odims"
    and dm: "contains dims dm"
    and be: "ob \<le> oe" and fit: "off + (oe - ob) \<le> extent_of dims dm"
    and sub: "set (map fst odims) \<subseteq> set (map fst dims)"
    and ext: "\<And>d. d \<in> set (map fst odims) \<Longrightarrow> d \<noteq> dm \<Longrightarrow> extent_of odims d = extent_of dims d"
    and src: "if contains odims dm then oe \<le> extent_of odims dm else ob = 0 \<and> oe = 1"
  shows "\<exists>data'. copy dims data odims odata dm off ob oe = Inr data'
           \<and> length data' = length data
           \<and> (\<forall>c. valid_index dims c \<longrightarrow>
                 data' ! row_major dims c =
                   (if off \<le> c dm \<and> c dm < off + (oe - ob)
                    then odata ! row_major odims (\<lambda>d. if d = dm then c dm - off + ob else c d)
                    else data ! row_major dims c))"
proof -
  let ?iter = "set_extent dims dm (oe - ob)"
  let ?S = "view_offsets ?iter (stride odims)
              (if contains odims dm then ob * extent_after odims dm else ob * volume odims)"
  let ?T = "view_offsets ?iter (stride dims) (off * extent_after dims dm)"
  let ?shT = "\<lambda>ci d. if d = dm then ci dm + off else ci (d::Dim)"
  let ?shS = "\<lambda>ci d. if d = dm then ci dm + ob else ci (d::Dim)"
  have dm': "dm \<in> set (map fst dims)" using dm by (simp add: contains_def)
  have idist: "distinct (map fst ?iter)" using dist by simp
  have eq: "copy dims data odims odata dm off ob oe = CopyHelper_copy odata ?S data ?T"
    using dist odist len olen dm be fit sub src by (rule copy_as_views)
  have ob0: "dm \<notin> set (map fst odims) \<Longrightarrow> ob = 0"
    using src by (simp add: contains_def)
  have iter_ext: "extent_of ?iter d = (if d = dm then oe - ob else extent_of dims d)" for d
    using dm by (simp add: extent_of_set_extent_same extent_of_set_extent_other)
  have vT: "valid_index dims (?shT ci)" if v: "valid_index ?iter ci" for ci
  proof -
    have b: "ci d < extent_of ?iter d" if "d \<in> set (map fst dims)" for d
      using idist v that by (intro valid_index_extentD) simp_all
    have "?shT ci d < extent_of dims d" if d: "d \<in> set (map fst dims)" for d
      using b [OF d] fit by (simp add: iter_ext split: if_splits)
    then show ?thesis using dist by (intro valid_index_extentI)
  qed
  have vS: "valid_index odims (?shS ci)" if v: "valid_index ?iter ci" for ci
  proof -
    have b: "ci d < extent_of ?iter d" if "d \<in> set (map fst dims)" for d
      using idist v that by (intro valid_index_extentD) simp_all
    have "?shS ci d < extent_of odims d" if d: "d \<in> set (map fst odims)" for d
    proof (cases "d = dm")
      case True
      with d src have "oe \<le> extent_of odims dm" by (simp add: contains_def)
      moreover have "ci dm < oe - ob" using b [OF dm'] by (simp add: iter_ext)
      ultimately show ?thesis using True by simp
    next
      case False
      from d sub have "d \<in> set (map fst dims)" by auto
      from b [OF this] False ext [OF d False] show ?thesis by (simp add: iter_ext)
    qed
    then show ?thesis using odist by (intro valid_index_extentI)
  qed
  have Tn: "?T ! row_major ?iter ci = row_major dims (?shT ci)" if "valid_index ?iter ci" for ci
    using dist dm' that by (rule slab_target)
  have Sn: "?S ! row_major ?iter ci = row_major odims (?shS ci)" if "valid_index ?iter ci" for ci
    using dist odist sub that ob0 by (rule slab_source)
  have pick: "valid_index ?iter (coords ?iter k) \<and> row_major ?iter (coords ?iter k) = k"
    if "k < volume ?iter" for k
    using idist that by (simp add: coords_valid coords_row_major)
  have Tk: "?T ! k = row_major dims (?shT (coords ?iter k))" if "k < volume ?iter" for k
    using Tn [of "coords ?iter k"] pick [OF that] by simp
  have Sk: "?S ! k = row_major odims (?shS (coords ?iter k))" if "k < volume ?iter" for k
    using Sn [of "coords ?iter k"] pick [OF that] by simp
  have Tb: "?T ! k < length data" if "k < volume ?iter" for k
  proof -
    have "valid_index dims (?shT (coords ?iter k))"
      using pick [OF that] by (intro vT) simp
    then have "row_major dims (?shT (coords ?iter k)) < volume dims"
      by (rule row_major_less)
    then show ?thesis using Tk [OF that] len by simp
  qed
  have Sb: "?S ! k < length odata" if "k < volume ?iter" for k
  proof -
    have "valid_index odims (?shS (coords ?iter k))"
      using pick [OF that] by (intro vS) simp
    then have "row_major odims (?shS (coords ?iter k)) < volume odims"
      by (rule row_major_less)
    then show ?thesis using Sk [OF that] olen by simp
  qed
  have Td: "distinct ?T"
  proof (subst distinct_conv_nth, intro allI impI)
    fix i j assume i: "i < length ?T" and j: "j < length ?T" and ij: "i \<noteq> j"
    then have i': "i < volume ?iter" and j': "j < volume ?iter" by simp_all
    show "?T ! i \<noteq> ?T ! j"
    proof
      assume "?T ! i = ?T ! j"
      then have r: "row_major dims (?shT (coords ?iter i)) = row_major dims (?shT (coords ?iter j))"
        using Tk [OF i'] Tk [OF j'] by simp
      have "coords ?iter i d = coords ?iter j d" if d: "d \<in> set (map fst ?iter)" for d
      proof -
        from d have d': "d \<in> set (map fst dims)" by simp
        have vi: "valid_index dims (?shT (coords ?iter i))"
          using pick [OF i'] by (intro vT) simp
        have vj: "valid_index dims (?shT (coords ?iter j))"
          using pick [OF j'] by (intro vT) simp
        have "?shT (coords ?iter i) d = ?shT (coords ?iter j) d"
          using vi vj r d' by (rule row_major_inj)
        then show ?thesis by (simp split: if_splits)
      qed
      then have "row_major ?iter (coords ?iter i) = row_major ?iter (coords ?iter j)"
        by (rule row_major_cong)
      with pick [OF i'] pick [OF j'] ij show False by simp
    qed
  qed
  have noUB: "\<not> (length ?T < length ?S
                 \<or> list_ex (\<lambda>s. length odata \<le> s) ?S
                 \<or> list_ex (\<lambda>t. length data \<le> t) (take (length ?S) ?T))"
  proof -
    have "\<not> list_ex (\<lambda>s. length odata \<le> s) ?S"
      using Sb by (auto simp: list_ex_iff in_set_conv_nth not_le)
    moreover have "\<not> list_ex (\<lambda>t. length data \<le> t) ?T"
      using Tb by (auto simp: list_ex_iff in_set_conv_nth not_le)
    ultimately show ?thesis by simp
  qed
  let ?ws = "zip ?T (map (\<lambda>s. odata ! s) ?S)"
  let ?out = "write_all data ?ws"
  have res: "copy dims data odims odata dm off ob oe = Inr ?out"
    unfolding eq CopyHelper_copy_def using noUB by (simp only: if_False)
  have wd: "distinct (map fst ?ws)" using Td by simp
  have main: "?out ! row_major dims c =
                (if off \<le> c dm \<and> c dm < off + (oe - ob)
                 then odata ! row_major odims (\<lambda>d. if d = dm then c dm - off + ob else c d)
                 else data ! row_major dims c)"
    if vc: "valid_index dims c" for c
  proof (cases "off \<le> c dm \<and> c dm < off + (oe - ob)")
    case True
    let ?ci = "\<lambda>d. if d = dm then c dm - off else c d"
    have cb: "c d < extent_of dims d" if "d \<in> set (map fst dims)" for d
      using dist vc that by (rule valid_index_extentD)
    have vci: "valid_index ?iter ?ci"
    proof (rule valid_index_extentI [OF idist])
      fix d assume "d \<in> set (map fst ?iter)"
      then have "d \<in> set (map fst dims)" by simp
      from cb [OF this] True show "?ci d < extent_of ?iter d"
        by (auto simp: iter_ext)
    qed
    let ?k = "row_major ?iter ?ci"
    have k: "?k < volume ?iter" using vci by (rule row_major_less)
    have "?T ! ?k = row_major dims (?shT ?ci)" using vci by (rule Tn)
    also have "\<dots> = row_major dims c"
      using True by (intro row_major_cong) auto
    finally have Tk': "?T ! ?k = row_major dims c" .
    have "?S ! ?k = row_major odims (?shS ?ci)" using vci by (rule Sn)
    also have "\<dots> = row_major odims (\<lambda>d. if d = dm then c dm - off + ob else c d)"
      by (intro row_major_cong) auto
    finally have Sk': "?S ! ?k = row_major odims (\<lambda>d. if d = dm then c dm - off + ob else c d)" .
    have "(?T ! ?k, odata ! (?S ! ?k)) \<in> set ?ws"
      using k by (auto simp: set_zip intro!: exI [of _ ?k])
    then have "?out ! (?T ! ?k) = odata ! (?S ! ?k)"
      using wd Tb [OF k] by (intro write_all_hit) simp_all
    with Tk' Sk' True show ?thesis by auto
  next
    case False
    have "row_major dims c \<notin> set ?T"
    proof
      assume "row_major dims c \<in> set ?T"
      then obtain k where k: "k < volume ?iter" and e: "?T ! k = row_major dims c"
        by (auto simp: in_set_conv_nth)
      from e have r: "row_major dims (?shT (coords ?iter k)) = row_major dims c"
        using Tk [OF k] by simp
      have vk: "valid_index dims (?shT (coords ?iter k))"
        using pick [OF k] by (intro vT) simp
      have "?shT (coords ?iter k) dm = c dm"
        using vk vc r dm' by (rule row_major_inj)
      moreover have "coords ?iter k dm < oe - ob"
      proof -
        from pick [OF k] have "valid_index ?iter (coords ?iter k)" by simp
        with idist have "coords ?iter k dm < extent_of ?iter dm"
          using dm' by (intro valid_index_extentD) simp_all
        then show ?thesis by (simp add: iter_ext)
      qed
      ultimately show False using False by simp
    qed
    then have "row_major dims c \<notin> fst ` set ?ws"
      by (auto dest: set_zip_leftD)
    then have "?out ! row_major dims c = data ! row_major dims c"
      by (rule write_all_other)
    with False show ?thesis by auto
  qed
  show ?thesis
    using res main by (intro exI [of _ ?out]) simp
qed

lemma check_extents_None:
  assumes "\<And>d. d \<in> set ls \<Longrightarrow> d \<noteq> dm \<Longrightarrow>
             contains dims2 d \<and> extent_of dims2 d = extent_of dims1 d"
  shows "check_extents ls dims1 dims2 dm = None"
  using assms by (induction ls) auto

lemma length_minus_label:
  assumes "distinct (map fst dims)"
  shows "int (length dims) - (if contains dims dm then 1 else 0)
           = int (card (set (map fst dims) - {dm}))"
proof -
  have l: "length dims = card (set (map fst dims))"
    using assms by (metis distinct_card length_map)
  show ?thesis
  proof (cases "contains dims dm")
    case True
    then have "dm \<in> set (map fst dims)" by (simp add: contains_def)
    then have "card (set (map fst dims) - {dm}) = card (set (map fst dims)) - 1"
      and "0 < card (set (map fst dims))"
      by (auto simp: card_gt_0_iff)
    with True l show ?thesis by simp
  next
    case False
    then have "set (map fst dims) - {dm} = set (map fst dims)"
      by (auto simp: contains_def)
    with False l show ?thesis by simp
  qed
qed

lemma remove_dim_set_extent [simp]: "remove_dim (set_extent dims d n) d = remove_dim dims d"
  by (induction dims) auto

lemma remove_dim_absent: "\<not> contains dims d \<Longrightarrow> remove_dim dims d = dims"
  by (induction dims) auto

lemma extent_of_absent: "\<not> contains dims d \<Longrightarrow> extent_of dims d = 0"
  by (induction dims) auto

lemma same_other_extents_ndim:
  assumes "distinct (map fst dims1)" and "distinct (map fst dims2)"
    and "same_other_extents dims1 dims2 dm"
  shows "int (ndim dims1) - (if contains dims1 dm then 1 else 0)
           = int (ndim dims2) - (if contains dims2 dm then 1 else 0)"
proof -
  have "set (map fst dims1) - {dm} = set (map fst dims2) - {dm}"
    using assms(3) by (auto simp: same_other_extents_def contains_def)
  then show ?thesis
    using length_minus_label [OF assms(1), of dm] length_minus_label [OF assms(2), of dm]
    by (simp add: ndim_def)
qed

lemma setDimensions_props:
  assumes "length (m_model v) = volume (m_dimensions v)"
  shows "m_dimensions (setDimensions init v dims) = dims"
    and "length (m_model (setDimensions init v dims)) = volume dims"
    and "m_type (setDimensions init v dims) = m_type v"
    and "m_name (setDimensions init v dims) = m_name v"
    and "m_unit (setDimensions init v dims) = m_unit v"
  using assms by (simp_all add: setDimensions_def)

lemma copy_into_slab:
  fixes out :: "'a Variable"
  assumes "distinct (map fst (m_dimensions out))" and "distinct (map fst (m_dimensions other))"
    and "length (m_model out) = volume (m_dimensions out)"
    and "length (m_model other) = volume (m_dimensions other)"
    and "contains (m_dimensions out) dm"
    and "ob \<le> oe" and "off + (oe - ob) \<le> extent_of (m_dimensions out) dm"
    and "set (map fst (m_dimensions other)) \<subseteq> set (map fst (m_dimensions out))"
    and "\<And>d. d \<in> set (map fst (m_dimensions other)) \<Longrightarrow> d \<noteq> dm
           \<Longrightarrow> extent_of (m_dimensions other) d = extent_of (m_dimensions out) d"
    and "if contains (m_dimensions other) dm then oe \<le> extent_of (m_dimensions other) dm
         else ob = 0 \<and> oe = 1"
  shows "\<exists>xs. copy_into out other dm off ob oe = Inr (out\<lparr>m_model := xs\<rparr>)
           \<and> length xs = length (m_model out)
           \<and> (\<forall>c. valid_index (m_dimensions out) c \<longrightarrow>
                 xs ! row_major (m_dimensions out) c =
                   (if off \<le> c dm \<and> c dm < off + (oe - ob)
                    then m_model other ! row_major (m_dimensions other)
                           (\<lambda>d. if d = dm then c dm - off + ob else c d)
                    else m_model out ! row_major (m_dimensions out) c))"
proof -
  from copy_slab [OF assms]
  obtain xs where "copy (m_dimensions out) (m_model out) (m_dimensions other) (m_model other)
                     dm off ob oe = Inr xs"
    and "length xs = length (m_model out)"
    and "\<forall>c. valid_index (m_dimensions out) c \<longrightarrow>
                 xs ! row_major (m_dimensions out) c =
                   (if off \<le> c dm \<and> c dm < off + (oe - ob)
                    then m_model other ! row_major (m_dimensions other)
                           (\<lambda>d. if d = dm then c dm - off + ob else c d)
                    else m_model out ! row_major (m_dimensions out) c)"
    by blast
  then show ?thesis
    by (intro exI [of _ xs]) (simp add: copy_into_def)
qed

lemma extent_of_Cons_other: "d \<noteq> d' \<Longrightarrow> extent_of ((d', n) # dims) d = extent_of dims d"
  by simp

lemma concatenate_unfold:
  "concatenate init a1 a2 dm =
     (if m_type a1 \<noteq> m_type a2 then Inl DataTypesDoNotMatch
      else if m_unit a1 \<noteq> m_unit a2 then Inl UnitsDoNotMatch
      else if m_name a1 \<noteq> m_name a2 then Inl NamesDoNotMatch
      else
        (case check_extents (labels (m_dimensions a1)) (m_dimensions a1) (m_dimensions a2) dm of
           Some e \<Rightarrow> Inl e
         | None \<Rightarrow>
             if int (ndim (m_dimensions a1)) - (if contains (m_dimensions a1) dm then 1 else 0)
                  \<noteq> int (ndim (m_dimensions a2)) - (if contains (m_dimensions a2) dm then 1 else 0)
             then Inl DimensionsDoNotMatch
             else
               (case (if contains (m_dimensions a1) dm
                      then resize (m_dimensions a1) dm
                             (index_add (extent_or_1 (m_dimensions a1) dm)
                                (extent_or_1 (m_dimensions a2) dm))
                      else add (m_dimensions a1) dm
                             (index_add (extent_or_1 (m_dimensions a1) dm)
                                (extent_or_1 (m_dimensions a2) dm))) of
                  Inl e \<Rightarrow> Inl e
                | Inr dims \<Rightarrow>
                    (case copy_into (setDimensions init a1 dims) a1 dm 0 0
                            (extent_or_1 (m_dimensions a1) dm) of
                       Inl e \<Rightarrow> Inl e
                     | Inr out \<Rightarrow>
                         copy_into out a2 dm (extent_or_1 (m_dimensions a1) dm) 0
                           (extent_or_1 (m_dimensions a2) dm)))))"
  unfolding concatenate_def extent_or_1_def Let_def by (rule refl)

lemma concatenate_spec:
  fixes a b :: "'a Variable"
  assumes ty: "m_type a = m_type b" and un: "m_unit a = m_unit b" and nm: "m_name a = m_name b"
    and wa: "well_formed a" and wb: "well_formed b"
    and same: "same_other_extents (m_dimensions a) (m_dimensions b) dm"
    and room: "contains (m_dimensions a) dm \<or> (ndim (m_dimensions a) < 6 \<and> dm \<noteq> Invalid)"
    and fits: "extent_or_1 (m_dimensions a) dm + extent_or_1 (m_dimensions b) dm < 2 ^ 63"
  shows "\<exists>out. concatenate init a b dm = Inr out
           \<and> m_type out = m_type a \<and> m_unit out = m_unit a \<and> m_name out = m_name a
           \<and> well_formed out
           \<and> m_dimensions out =
               (if contains (m_dimensions a) dm
                then set_extent (m_dimensions a) dm
                       (extent_or_1 (m_dimensions a) dm + extent_or_1 (m_dimensions b) dm)
                else (dm, extent_or_1 (m_dimensions a) dm + extent_or_1 (m_dimensions b) dm)
                       # m_dimensions a)
           \<and> contains (m_dimensions out) dm
           \<and> extent_of (m_dimensions out) dm
               = extent_or_1 (m_dimensions a) dm + extent_or_1 (m_dimensions b) dm
           \<and> remove_dim (m_dimensions out) dm = remove_dim (m_dimensions a) dm
           \<and> (\<forall>c. valid_index (m_dimensions out) c \<longrightarrow>
                 m_model out ! row_major (m_dimensions out) c =
                   (if c dm < extent_or_1 (m_dimensions a) dm
                    then m_model a ! row_major (m_dimensions a) c
                    else m_model b ! row_major (m_dimensions b)
                           (\<lambda>d. if d = dm then c dm - extent_or_1 (m_dimensions a) dm else c d)))"
proof -
  let ?da = "m_dimensions a" and ?db = "m_dimensions b"
  define e1 where "e1 = extent_or_1 ?da dm"
  define e2 where "e2 = extent_or_1 ?db dm"
  define dims where
    "dims = (if contains ?da dm then set_extent ?da dm (e1 + e2) else (dm, e1 + e2) # ?da)"
  have da: "distinct (map fst ?da)" and la: "length (m_model a) = volume ?da"
    using wa by (simp_all add: well_formed_def labels_def)
  have db: "distinct (map fst ?db)" and lb: "length (m_model b) = volume ?db"
    using wb by (simp_all add: well_formed_def labels_def)
  have other: "contains ?da d \<longleftrightarrow> contains ?db d" "extent_of ?da d = extent_of ?db d"
    if "d \<noteq> dm" for d
    using same that by (simp_all add: same_other_extents_def)
  have chk: "check_extents (labels ?da) ?da ?db dm = None"
  proof (rule check_extents_None)
    fix d assume "d \<in> set (labels ?da)" and "d \<noteq> dm"
    then show "contains ?db d \<and> extent_of ?db d = extent_of ?da d"
      using other [of d] by (simp add: labels_def contains_def)
  qed
  have nd: "int (ndim ?da) - (if contains ?da dm then 1 else 0)
              = int (ndim ?db) - (if contains ?db dm then 1 else 0)"
    using da db same by (rule same_other_extents_ndim)
  have ia: "index_add e1 e2 = int (e1 + e2)"
    using fits by (simp add: index_add_def e1_def e2_def Let_def)
  have rd: "(if contains ?da dm then resize ?da dm (index_add e1 e2)
             else add ?da dm (index_add e1 e2)) = Inr dims"
    unfolding ia using room by (auto simp: dims_def resize_def add_def ndim_def nat_int_add)
  have dd: "distinct (map fst dims)"
    using da by (auto simp: dims_def contains_def)
  have cd: "contains dims dm"
    by (simp add: dims_def)
  have ed: "extent_of dims dm = e1 + e2"
    by (simp add: dims_def extent_of_set_extent_same)
  have eo: "extent_of dims d = extent_of ?da d" if "d \<noteq> dm" for d
    using that by (simp add: dims_def extent_of_set_extent_other)
  have ld: "set (map fst dims) = insert dm (set (map fst ?da))"
    by (auto simp: dims_def contains_def)
  have rm: "remove_dim dims dm = remove_dim ?da dm"
    by (simp add: dims_def remove_dim_absent)
  have e1c: "if contains ?da dm then e1 \<le> extent_of ?da dm else 0 = (0::nat) \<and> e1 = 1"
    by (simp add: e1_def extent_or_1_def)
  have e2c: "if contains ?db dm then e2 \<le> extent_of ?db dm else 0 = (0::nat) \<and> e2 = 1"
    by (simp add: e2_def extent_or_1_def)
  define out0 where "out0 = setDimensions init a dims"
  have o0: "m_dimensions out0 = dims" "length (m_model out0) = volume dims"
    "m_type out0 = m_type a" "m_name out0 = m_name a" "m_unit out0 = m_unit a"
    unfolding out0_def using la by (rule setDimensions_props)+
  have "\<exists>xs. copy_into out0 a dm 0 0 e1 = Inr (out0\<lparr>m_model := xs\<rparr>)
           \<and> length xs = length (m_model out0)
           \<and> (\<forall>c. valid_index (m_dimensions out0) c \<longrightarrow>
                 xs ! row_major (m_dimensions out0) c =
                   (if 0 \<le> c dm \<and> c dm < 0 + (e1 - 0)
                    then m_model a ! row_major ?da (\<lambda>d. if d = dm then c dm - 0 + 0 else c d)
                    else m_model out0 ! row_major (m_dimensions out0) c))"
  proof (rule copy_into_slab)
    show "distinct (map fst (m_dimensions out0))" using dd o0(1) by simp
    show "distinct (map fst ?da)" by (rule da)
    show "length (m_model out0) = volume (m_dimensions out0)" using o0 by simp
    show "length (m_model a) = volume ?da" by (rule la)
    show "contains (m_dimensions out0) dm" using cd o0(1) by simp
    show "0 \<le> e1" by simp
    show "0 + (e1 - 0) \<le> extent_of (m_dimensions out0) dm" using ed o0(1) by simp
    show "set (map fst ?da) \<subseteq> set (map fst (m_dimensions out0))" using ld o0(1) by auto
    show "extent_of ?da d = extent_of (m_dimensions out0) d"
      if "d \<in> set (map fst ?da)" "d \<noteq> dm" for d
      using eo [OF that(2)] o0(1) by simp
    show "if contains ?da dm then e1 \<le> extent_of ?da dm else 0 = (0::nat) \<and> e1 = 1"
      by (rule e1c)
  qed
  then obtain xs1 where c1: "copy_into out0 a dm 0 0 e1 = Inr (out0\<lparr>m_model := xs1\<rparr>)"
    and l1': "length xs1 = length (m_model out0)"
    and p1': "\<forall>c. valid_index (m_dimensions out0) c \<longrightarrow>
                 xs1 ! row_major (m_dimensions out0) c =
                   (if 0 \<le> c dm \<and> c dm < 0 + (e1 - 0)
                    then m_model a ! row_major ?da (\<lambda>d. if d = dm then c dm - 0 + 0 else c d)
                    else m_model out0 ! row_major (m_dimensions out0) c)"
    by (elim exE conjE)
  have l1: "length xs1 = volume dims" using l1' o0 by simp
  have p1: "xs1 ! row_major dims c = m_model a ! row_major ?da c"
    if "valid_index dims c" "c dm < e1" for c
  proof -
    have "row_major ?da (\<lambda>d. if d = dm then c dm - 0 + 0 else c d) = row_major ?da c"
      by (intro row_major_cong) simp
    with p1' that o0(1) show ?thesis by simp
  qed
  define out1 where "out1 = out0\<lparr>m_model := xs1\<rparr>"
  have o1: "m_dimensions out1 = dims" "m_model out1 = xs1"
    "m_type out1 = m_type a" "m_name out1 = m_name a" "m_unit out1 = m_unit a"
    using o0 by (simp_all add: out1_def)
  have "\<exists>xs. copy_into out1 b dm e1 0 e2 = Inr (out1\<lparr>m_model := xs\<rparr>)
           \<and> length xs = length (m_model out1)
           \<and> (\<forall>c. valid_index (m_dimensions out1) c \<longrightarrow>
                 xs ! row_major (m_dimensions out1) c =
                   (if e1 \<le> c dm \<and> c dm < e1 + (e2 - 0)
                    then m_model b ! row_major ?db (\<lambda>d. if d = dm then c dm - e1 + 0 else c d)
                    else m_model out1 ! row_major (m_dimensions out1) c))"
  proof (rule copy_into_slab)
    show "distinct (map fst (m_dimensions out1))" using dd o1(1) by simp
    show "distinct (map fst ?db)" by (rule db)
    show "length (m_model out1) = volume (m_dimensions out1)" using o1 l1 by simp
    show "length (m_model b) = volume ?db" by (rule lb)
    show "contains (m_dimensions out1) dm" using cd o1(1) by simp
    show "0 \<le> e2" by simp
    show "e1 + (e2 - 0) \<le> extent_of (m_dimensions out1) dm" using ed o1(1) by simp
    show "set (map fst ?db) \<subseteq> set (map fst (m_dimensions out1))"
    proof
      fix d assume d: "d \<in> set (map fst ?db)"
      show "d \<in> set (map fst (m_dimensions out1))"
      proof (cases "d = dm")
        case True
        then show ?thesis using ld o1(1) by simp
      next
        case False
        with d other(1) [OF False] have "d \<in> set (map fst ?da)" by (simp add: contains_def)
        then show ?thesis using ld o1(1) by simp
      qed
    qed
    show "extent_of ?db d = extent_of (m_dimensions out1) d"
      if "d \<in> set (map fst ?db)" "d \<noteq> dm" for d
      using eo [OF that(2)] other(2) [OF that(2)] o1(1) by simp
    show "if contains ?db dm then e2 \<le> extent_of ?db dm else 0 = (0::nat) \<and> e2 = 1"
      by (rule e2c)
  qed
  then obtain xs2 where c2: "copy_into out1 b dm e1 0 e2 = Inr (out1\<lparr>m_model := xs2\<rparr>)"
    and l2': "length xs2 = length (m_model out1)"
    and p2': "\<forall>c. valid_index (m_dimensions out1) c \<longrightarrow>
                 xs2 ! row_major (m_dimensions out1) c =
                   (if e1 \<le> c dm \<and> c dm < e1 + (e2 - 0)
                    then m_model b ! row_major ?db (\<lambda>d. if d = dm then c dm - e1 + 0 else c d)
                    else m_model out1 ! row_major (m_dimensions out1) c)"
    by (elim exE conjE)
  have l2: "length xs2 = volume dims" using l2' o1 l1 by simp
  define out where "out = out1\<lparr>m_model := xs2\<rparr>"
  have o: "m_dimensions out = dims" "m_model out = xs2"
    "m_type out = m_type a" "m_name out = m_name a" "m_unit out = m_unit a"
    using o1 by (simp_all add: out_def)
  have c1': "copy_into (setDimensions init a dims) a dm 0 0 (extent_or_1 ?da dm) = Inr out1"
    using c1 by (simp add: out0_def out1_def e1_def)
  have c2': "copy_into out1 b dm (extent_or_1 ?da dm) 0 (extent_or_1 ?db dm) = Inr out"
    using c2 by (simp add: out_def e1_def e2_def)
  have res: "concatenate init a b dm = Inr out"
    unfolding concatenate_unfold
    by (simp only: ty un nm chk nd rd [unfolded e1_def e2_def] c1' c2'
          sum.case option.case if_False simp_thms)
  have final: "xs2 ! row_major dims c =
                 (if c dm < e1 then m_model a ! row_major ?da c
                  else m_model b ! row_major ?db (\<lambda>d. if d = dm then c dm - e1 else c d))"
    if vc: "valid_index dims c" for c
  proof -
    have "c dm < extent_of dims dm"
      using dd vc cd by (intro valid_index_extentD) (simp_all add: contains_def)
    then have up: "c dm < e1 + e2" using ed by simp
    show ?thesis
    proof (cases "c dm < e1")
      case True
      with p2' vc o1 have "xs2 ! row_major dims c = xs1 ! row_major dims c" by simp
      with p1 [OF vc True] True show ?thesis by simp
    next
      case False
      have "row_major ?db (\<lambda>d. if d = dm then c dm - e1 + 0 else c d)
              = row_major ?db (\<lambda>d. if d = dm then c dm - e1 else c d)"
        by (intro row_major_cong) simp
      with False p2' vc o1 up show ?thesis by simp
    qed
  qed
  have wf: "well_formed out"
    using dd l2 o by (simp add: well_formed_def labels_def)
  show ?thesis
  proof (intro exI [of _ out] conjI allI impI)
    show "concatenate init a b dm = Inr out" by (rule res)
    show "m_type out = m_type a" "m_unit out = m_unit a" "m_name out = m_name a"
      using o by simp_all
    show "well_formed out" by (rule wf)
    show "m_dimensions out =
            (if contains ?da dm
             then set_extent ?da dm (extent_or_1 ?da dm + extent_or_1 ?db dm)
             else (dm, extent_or_1 ?da dm + extent_or_1 ?db dm) # ?da)"
      using o(1) by (simp only: dims_def e1_def e2_def)
    show "contains (m_dimensions out) dm" using cd o by simp
    show "extent_of (m_dimensions out) dm = extent_or_1 ?da dm + extent_or_1 ?db dm"
      using ed o by (simp add: e1_def e2_def)
    show "remove_dim (m_dimensions out) dm = remove_dim ?da dm" using rm o by simp
    fix c assume "valid_index (m_dimensions out) c"
    then have "valid_index dims c" using o by simp
    from final [OF this, unfolded e1_def]
    show "m_model out ! row_major (m_dimensions out) c =
        (if c dm < extent_or_1 ?da dm then m_model a ! row_major ?da c
         else m_model b ! row_major ?db (\<lambda>d. if d = dm then c dm - extent_or_1 ?da dm else c d))"
      using o by (simp only:)
  qed
qed

text \<open>
  C2 (amended).  For two well-formed Variables \<open>a\<close> and \<open>b\<close> with identical tag, unit and
  name and with the same dimensions and extents other than the join dimension \<open>dm\<close>,
  where \<open>a\<close> mentions \<open>dm\<close> or has fewer than six dimensions (and \<open>dm\<close> is not
  \<open>Dim::Invalid\<close>), and where the sum of the two extents along \<open>dm\<close> is a
  \<open>gsl::index\<close> (below \<open>2 ^ 63\<close>): \<open>concatenate(a, b, dm)\<close> returns a Variable with the tag, unit
  and name of \<open>a\<close>; its dimensions are those of \<open>a\<close> with the extent along \<open>dm\<close>
  replaced by \<open>extent_or_1 a + extent_or_1 b\<close>, or with \<open>dm\<close> added as the outermost
  dimension with that extent when \<open>a\<close> does not mention it (extent 2 when neither operand
  does); the other dimensions are unchanged; and at every index \<open>c\<close> of the result the
  element is the element of \<open>a\<close> at \<open>c\<close> when \<open>c dm\<close> is below \<open>extent_or_1 a\<close>, and
  otherwise the element of \<open>b\<close> at \<open>c\<close> with \<open>c dm\<close> reduced by \<open>extent_or_1 a\<close>:
  the slabs of \<open>a\<close> followed by the slabs of \<open>b\<close>.
\<close>

theorem concatenate_joins:
  fixes a b :: "'a Variable"
  assumes ty: "m_type a = m_type b" and un: "m_unit a = m_unit b" and nm: "m_name a = m_name b"
    and wa: "well_formed a" and wb: "well_formed b"
    and same: "same_other_extents (m_dimensions a) (m_dimensions b) dm"
    and room: "contains (m_dimensions a) dm \<or> (ndim (m_dimensions a) < 6 \<and> dm \<noteq> Invalid)"
    and fits: "extent_or_1 (m_dimensions a) dm + extent_or_1 (m_dimensions b) dm < 2 ^ 63"
  shows "\<exists>out. concatenate init a b dm = Inr out
           \<and> m_type out = m_type a \<and> m_unit out = m_unit a \<and> m_name out = m_name a
           \<and> well_formed out
           \<and> m_dimensions out =
               (if contains (m_dimensions a) dm
                then set_extent (m_dimensions a) dm
                       (extent_or_1 (m_dimensions a) dm + extent_or_1 (m_dimensions b) dm)
                else (dm, extent_or_1 (m_dimensions a) dm + extent_or_1 (m_dimensions b) dm)
                       # m_dimensions a)
           \<and> contains (m_dimensions out) dm
           \<and> extent_of (m_dimensions out) dm
               = extent_or_1 (m_dimensions a) dm + extent_or_1 (m_dimensions b) dm
           \<and> remove_dim (m_dimensions out) dm = remove_dim (m_dimensions a) dm
           \<and> (\<forall>c. valid_index (m_dimensions out) c \<longrightarrow>
                 m_model out ! row_major (m_dimensions out) c =
                   (if c dm < extent_or_1 (m_dimensions a) dm
                    then m_model a ! row_major (m_dimensions a) c
                    else m_model b ! row_major (m_dimensions b)
                           (\<lambda>d. if d = dm then c dm - extent_or_1 (m_dimensions a) dm else c d)))"
  using ty un nm wa wb same room fits by (rule concatenate_spec)

text \<open>
  C2 as stated fails in three cases.  Operands that already have six dimensions, none
  of them the join dimension: the result would need a seventh entry, which a
  \<open>Dimensions\<close> cannot hold.  The join dimension \<open>Dim::Invalid\<close>: it cannot be added to
  a \<open>Dimensions\<close>.  Extents whose sum is not a \<open>gsl::index\<close>: for two empty variables
  of shape \<open>{Y:0, X:2^63-1}\<close> the sum along \<open>X\<close> wraps around to \<open>-2\<close>, which \<open>resize\<close>
  rejects.
\<close>

theorem concatenate_counterexamples:
  "concatenate 0 six_dimensional six_dimensional Q = Inl TooManyDimensions
   \<and> concatenate 0 (mkv [(Tof, 1)] [1]) (mkv [(Tof, 1)] [2]) Invalid = Inl InvalidDimension
   \<and> concatenate 0 (mkv [(Y, 0), (X, 9223372036854775807)] [])
         (mkv [(Y, 0), (X, 9223372036854775807)] []) X = Inl NegativeExtent
   \<and> well_formed (mkv [(Y, 0), (X, 9223372036854775807)] [])
   \<and> index_add 9223372036854775807 9223372036854775807 = - 2"
proof -
  have six: "concatenate 0 six_dimensional six_dimensional Q = Inl TooManyDimensions"
    by (simp add: concatenate_def six_dimensional_def mkv_def labels_def ndim_def add_def
        Let_def contains_def)
  have inv: "concatenate 0 (mkv [(Tof, 1)] [1]) (mkv [(Tof, 1)] [2]) Invalid
               = Inl InvalidDimension"
    by (simp add: concatenate_def mkv_def labels_def ndim_def add_def Let_def contains_def)
  have wrap: "index_add 9223372036854775807 9223372036854775807 = - 2"
    by (simp add: index_add_def Let_def)
  have big: "concatenate 0 (mkv [(Y, 0), (X, 9223372036854775807)] [])
               (mkv [(Y, 0), (X, 9223372036854775807)] []) X = Inl NegativeExtent"
    by (simp add: concatenate_def mkv_def labels_def ndim_def resize_def Let_def contains_def
        wrap)
  have wf: "well_formed (mkv [(Y, 0), (X, 9223372036854775807)] [])"
    by (simp add: well_formed_def mkv_def labels_def)
  from six inv big wf wrap show ?thesis by (intro conjI)
qed

text \<open>The two concatenations of scenario 2 (\<open>TEST(Variable, concatenate)\<close>).\<close>

lemma concatenate_along_Tof: "concatenate 0 (mkv [(Tof, 1)] [1]) (mkv [(Tof, 1)] [2]) Tof = Inr (mkv [(Tof, 2)] [1, 2])"
  by code_simp

lemma concatenate_along_Q: "concatenate 0 (mkv [(Tof, 2)] [1, 2]) (mkv [(Tof, 2)] [2, 1]) Q
          = Inr (mkv [(Q, 2), (Tof, 2)] [1, 2, 2, 1])"
  by code_simp

text \<open>The theorem at \<open>[1, 2]\<close> and \<open>[2, 1]\<close> along the new dimension \<open>Q\<close>.\<close>

theorem concatenate_joins_witness:
  "well_formed (mkv [(Tof, 2)] [1, 2]) \<and> well_formed (mkv [(Tof, 2)] [2, 1])
   \<and> same_other_extents [(Tof, 2)] [(Tof, 2)] Q
   \<and> extent_or_1 [(Tof, 2)] Q + extent_or_1 [(Tof, 2)] Q < 2 ^ 63
   \<and> (\<exists>out. concatenate 0 (mkv [(Tof, 2)] [1, 2]) (mkv [(Tof, 2)] [2, 1]) Q = Inr out
          \<and> m_dimensions out = [(Q, 2), (Tof, 2)]
          \<and> m_model out = [1, 2, 2, 1])"
proof -
  let ?a = "mkv [(Tof, 2)] [1, 2]" and ?b = "mkv [(Tof, 2)] [2, 1]"
  have wa: "well_formed ?a" and wb: "well_formed ?b"
    by (simp_all add: well_formed_def mkv_def labels_def volume_def)
  have same: "same_other_extents (m_dimensions ?a) (m_dimensions ?b) Q"
    by (simp add: same_other_extents_def mkv_def)
  have room: "contains (m_dimensions ?a) Q \<or> (ndim (m_dimensions ?a) < 6 \<and> Q \<noteq> Invalid)"
    by (simp add: mkv_def ndim_def)
  have fits: "extent_or_1 (m_dimensions ?a) Q + extent_or_1 (m_dimensions ?b) Q < 2 ^ 63"
    by (simp add: mkv_def extent_or_1_def)
  from concatenate_joins [OF _ _ _ wa wb same room fits, of 0]
  obtain out where "concatenate 0 ?a ?b Q = Inr out"
    by (auto simp: mkv_def)
  moreover have "concatenate 0 ?a ?b Q = Inr (mkv [(Q, 2), (Tof, 2)] [1, 2, 2, 1])"
    by code_simp
  ultimately show ?thesis
    using wa wb same fits by (simp add: mkv_def)
qed

lemma set_extent_set_extent [simp]: "set_extent (set_extent dims d n) d m = set_extent dims d m"
  by (induction dims) auto

lemma set_extent_id: "contains dims d \<Longrightarrow> set_extent dims d (extent_of dims d) = dims"
  by (simp add: set_extent_same)

lemma slice_range_spec:
  fixes v :: "'a Variable"
  assumes wf: "well_formed v" and dm: "contains (m_dimensions v) dm"
    and be: "b \<le> e" and en: "e \<le> extent_of (m_dimensions v) dm"
  shows "\<exists>s. slice_range init v dm b e = Inr s
           \<and> m_type s = m_type v \<and> m_unit s = m_unit v \<and> m_name s = m_name v
           \<and> m_dimensions s = set_extent (m_dimensions v) dm (e - b)
           \<and> well_formed s
           \<and> (\<forall>c. valid_index (m_dimensions s) c \<longrightarrow>
                 m_model s ! row_major (m_dimensions s) c =
                   m_model v ! row_major (m_dimensions v) (\<lambda>d. if d = dm then c dm + b else c d))"
proof -
  let ?dv = "m_dimensions v"
  define dims where "dims = set_extent ?dv dm (e - b)"
  have dv: "distinct (map fst ?dv)" and lv: "length (m_model v) = volume ?dv"
    using wf by (simp_all add: well_formed_def labels_def)
  have "nat (int e - int b) = e - b" using be by simp
  then have rs: "resize ?dv dm (int e - int b) = Inr dims"
    using dm be by (simp add: resize_def dims_def)
  show ?thesis
  proof (cases "dims = ?dv")
    case True
    then have "extent_of ?dv dm = e - b"
      using dm by (simp add: dims_def set_extent_same)
    with en be have b0: "b = 0" by simp
    have res: "slice_range init v dm b e = Inr v"
      using rs True by (simp add: slice_range_def)
    have "m_model v ! row_major ?dv c
            = m_model v ! row_major ?dv (\<lambda>d. if d = dm then c dm + b else c d)" for c
    proof -
      have "row_major ?dv (\<lambda>d. if d = dm then c dm + b else c d) = row_major ?dv c"
        using b0 by (intro row_major_cong) simp
      then show ?thesis by simp
    qed
    with res wf True show ?thesis
      by (intro exI [of _ v]) (simp add: dims_def [symmetric])
  next
    case False
    define out0 where "out0 = setDimensions init v dims"
    have o0: "m_dimensions out0 = dims" "length (m_model out0) = volume dims"
      "m_type out0 = m_type v" "m_name out0 = m_name v" "m_unit out0 = m_unit v"
      unfolding out0_def using lv by (rule setDimensions_props)+
    have dd: "distinct (map fst dims)" using dv by (simp add: dims_def)
    have cd: "contains dims dm" using dm by (simp add: dims_def)
    have ed: "extent_of dims dm = e - b" using dm by (simp add: dims_def extent_of_set_extent_same)
    have "\<exists>xs. copy_into out0 v dm 0 b e = Inr (out0\<lparr>m_model := xs\<rparr>)
           \<and> length xs = length (m_model out0)
           \<and> (\<forall>c. valid_index (m_dimensions out0) c \<longrightarrow>
                 xs ! row_major (m_dimensions out0) c =
                   (if 0 \<le> c dm \<and> c dm < 0 + (e - b)
                    then m_model v ! row_major ?dv (\<lambda>d. if d = dm then c dm - 0 + b else c d)
                    else m_model out0 ! row_major (m_dimensions out0) c))"
    proof (rule copy_into_slab)
      show "distinct (map fst (m_dimensions out0))" using dd o0(1) by simp
      show "distinct (map fst ?dv)" by (rule dv)
      show "length (m_model out0) = volume (m_dimensions out0)" using o0 by simp
      show "length (m_model v) = volume ?dv" by (rule lv)
      show "contains (m_dimensions out0) dm" using cd o0(1) by simp
      show "b \<le> e" by (rule be)
      show "0 + (e - b) \<le> extent_of (m_dimensions out0) dm" using ed o0(1) by simp
      show "set (map fst ?dv) \<subseteq> set (map fst (m_dimensions out0))"
        using o0(1) by (simp add: dims_def)
      show "extent_of ?dv d = extent_of (m_dimensions out0) d"
        if "d \<in> set (map fst ?dv)" "d \<noteq> dm" for d
        using that(2) o0(1) by (simp add: dims_def extent_of_set_extent_other)
      show "if contains ?dv dm then e \<le> extent_of ?dv dm else b = 0 \<and> e = 1"
        using dm en by simp
    qed
    then obtain xs where c1: "copy_into out0 v dm 0 b e = Inr (out0\<lparr>m_model := xs\<rparr>)"
      and l1: "length xs = length (m_model out0)"
      and p1: "\<forall>c. valid_index (m_dimensions out0) c \<longrightarrow>
                 xs ! row_major (m_dimensions out0) c =
                   (if 0 \<le> c dm \<and> c dm < 0 + (e - b)
                    then m_model v ! row_major ?dv (\<lambda>d. if d = dm then c dm - 0 + b else c d)
                    else m_model out0 ! row_major (m_dimensions out0) c)"
      by (elim exE conjE)
    define s where "s = out0\<lparr>m_model := xs\<rparr>"
    have os: "m_dimensions s = dims" "m_model s = xs"
      "m_type s = m_type v" "m_name s = m_name v" "m_unit s = m_unit v"
      using o0 by (simp_all add: s_def)
    have res: "slice_range init v dm b e = Inr s"
      using rs False c1 by (simp add: slice_range_def out0_def s_def)
    have pt: "xs ! row_major dims c
                = m_model v ! row_major ?dv (\<lambda>d. if d = dm then c dm + b else c d)"
      if vc: "valid_index dims c" for c
    proof -
      have "c dm < extent_of dims dm"
        using dd vc cd by (intro valid_index_extentD) (simp_all add: contains_def)
      then have up: "c dm < e - b" using ed by simp
      have "row_major ?dv (\<lambda>d. if d = dm then c dm - 0 + b else c d)
              = row_major ?dv (\<lambda>d. if d = dm then c dm + b else c d)"
        by (intro row_major_cong) simp
      with p1 vc up o0(1) show ?thesis by simp
    qed
    have wfs: "well_formed s"
      using dd l1 o0 os by (simp add: well_formed_def labels_def)
    show ?thesis
    proof (intro exI [of _ s] conjI allI impI)
      show "slice_range init v dm b e = Inr s" by (rule res)
      show "m_type s = m_type v" "m_unit s = m_unit v" "m_name s = m_name v"
        using os by simp_all
      show "m_dimensions s = set_extent ?dv dm (e - b)" using os(1) by (simp add: dims_def)
      show "well_formed s" by (rule wfs)
      fix c assume "valid_index (m_dimensions s) c"
      then have "valid_index dims c" using os by simp
      from pt [OF this] show "m_model s ! row_major (m_dimensions s) c =
          m_model v ! row_major ?dv (\<lambda>d. if d = dm then c dm + b else c d)"
        using os by simp
    qed
  qed
qed

lemma valid_index_set_extent:
  assumes "distinct (map fst dims)" and "contains dims dm"
    and "valid_index (set_extent dims dm n) c" and "c' dm < m"
    and "\<And>d. d \<noteq> dm \<Longrightarrow> c' d = c d"
  shows "valid_index (set_extent dims dm m) c'"
proof (rule valid_index_extentI)
  show "distinct (map fst (set_extent dims dm m))" using assms(1) by simp
next
  fix d assume d: "d \<in> set (map fst (set_extent dims dm m))"
  show "c' d < extent_of (set_extent dims dm m) d"
  proof (cases "d = dm")
    case True
    with assms(2,4) show ?thesis by (simp add: extent_of_set_extent_same)
  next
    case False
    have "c d < extent_of (set_extent dims dm n) d"
      using assms(1,3) d by (intro valid_index_extentD) simp_all
    with False assms(5) show ?thesis by (simp add: extent_of_set_extent_other)
  qed
qed

lemma concatenate_slices:
  fixes v :: "'a Variable"
  assumes wf: "well_formed v" and dm: "contains (m_dimensions v) dm"
    and ab: "a \<le> b" and bc: "b \<le> c" and cn: "c \<le> extent_of (m_dimensions v) dm"
    and s1: "slice_range init v dm a b = Inr s1"
    and s2: "slice_range init v dm b c = Inr s2"
    and s3: "slice_range init v dm a c = Inr s3"
    and rp: "extent_of (m_dimensions v) dm < 2 ^ 63"
  shows "concatenate init s1 s2 dm = Inr s3"
proof -
  let ?dv = "m_dimensions v"
  have dv: "distinct (map fst ?dv)"
    using wf by (simp add: well_formed_def labels_def)
  have bn: "b \<le> extent_of ?dv dm" using bc cn by simp
  have ac: "a \<le> c" using ab bc by simp
  from slice_range_spec [OF wf dm ab bn, of init] s1
  have p1: "m_type s1 = m_type v" "m_unit s1 = m_unit v" "m_name s1 = m_name v"
    "m_dimensions s1 = set_extent ?dv dm (b - a)" "well_formed s1"
    "\<And>i. valid_index (m_dimensions s1) i \<Longrightarrow>
        m_model s1 ! row_major (m_dimensions s1) i =
          m_model v ! row_major ?dv (\<lambda>d. if d = dm then i dm + a else i d)"
    by auto
  from slice_range_spec [OF wf dm bc cn, of init] s2
  have p2: "m_type s2 = m_type v" "m_unit s2 = m_unit v" "m_name s2 = m_name v"
    "m_dimensions s2 = set_extent ?dv dm (c - b)" "well_formed s2"
    "\<And>i. valid_index (m_dimensions s2) i \<Longrightarrow>
        m_model s2 ! row_major (m_dimensions s2) i =
          m_model v ! row_major ?dv (\<lambda>d. if d = dm then i dm + b else i d)"
    by auto
  from slice_range_spec [OF wf dm ac cn, of init] s3
  have p3: "m_type s3 = m_type v" "m_unit s3 = m_unit v" "m_name s3 = m_name v"
    "m_dimensions s3 = set_extent ?dv dm (c - a)" "well_formed s3"
    "\<And>i. valid_index (m_dimensions s3) i \<Longrightarrow>
        m_model s3 ! row_major (m_dimensions s3) i =
          m_model v ! row_major ?dv (\<lambda>d. if d = dm then i dm + a else i d)"
    by auto
  have e1: "extent_or_1 (m_dimensions s1) dm = b - a"
    using dm by (simp add: p1(4) extent_or_1_def extent_of_set_extent_same)
  have e2: "extent_or_1 (m_dimensions s2) dm = c - b"
    using dm by (simp add: p2(4) extent_or_1_def extent_of_set_extent_same)
  have same: "same_other_extents (m_dimensions s1) (m_dimensions s2) dm"
    by (simp add: same_other_extents_def p1(4) p2(4) extent_of_set_extent_other)
  have room: "contains (m_dimensions s1) dm \<or> (ndim (m_dimensions s1) < 6 \<and> dm \<noteq> Invalid)"
    using dm by (simp add: p1(4))
  have ty: "m_type s1 = m_type s2" and un: "m_unit s1 = m_unit s2" and nm: "m_name s1 = m_name s2"
    by (simp_all add: p1 p2)
  have fits: "extent_or_1 (m_dimensions s1) dm + extent_or_1 (m_dimensions s2) dm < 2 ^ 63"
    using ab bc cn rp by (simp add: e1 e2)
  from concatenate_spec [OF ty un nm p1(5) p2(5) same room fits, of init]
  obtain out where res: "concatenate init s1 s2 dm = Inr out"
    and o: "m_type out = m_type s1" "m_unit out = m_unit s1" "m_name out = m_name s1"
      "well_formed out"
    and od: "m_dimensions out =
               (if contains (m_dimensions s1) dm
                then set_extent (m_dimensions s1) dm
                       (extent_or_1 (m_dimensions s1) dm + extent_or_1 (m_dimensions s2) dm)
                else (dm, extent_or_1 (m_dimensions s1) dm + extent_or_1 (m_dimensions s2) dm)
                       # m_dimensions s1)"
    and op: "\<forall>i. valid_index (m_dimensions out) i \<longrightarrow>
               m_model out ! row_major (m_dimensions out) i =
                 (if i dm < extent_or_1 (m_dimensions s1) dm
                  then m_model s1 ! row_major (m_dimensions s1) i
                  else m_model s2 ! row_major (m_dimensions s2)
                         (\<lambda>d. if d = dm then i dm - extent_or_1 (m_dimensions s1) dm else i d))"
    by (elim exE conjE)
  have sum: "(b - a) + (c - b) = c - a" using ab bc by simp
  have e1s: "extent_or_1 (set_extent ?dv dm (b - a)) dm = b - a"
    using e1 by (simp add: p1(4))
  have e2s: "extent_or_1 (set_extent ?dv dm (c - b)) dm = c - b"
    using e2 by (simp add: p2(4))
  have dims: "m_dimensions out = m_dimensions s3"
    using dm by (simp add: od e1s e2s p1(4) p2(4) p3(4) sum)
  let ?d = "m_dimensions s3"
  have dd: "distinct (map fst ?d)" using dv by (simp add: p3(4))
  have lo: "length (m_model out) = volume ?d" and l3: "length (m_model s3) = volume ?d"
    using o(4) p3(5) dims by (simp_all add: well_formed_def)
  have data: "m_model out = m_model s3"
  proof (rule nth_equalityI)
    show "length (m_model out) = length (m_model s3)" using lo l3 by simp
  next
    fix k assume "k < length (m_model out)"
    then have k: "k < volume ?d" using lo by simp
    define i where "i = coords ?d k"
    have vi: "valid_index ?d i" and ri: "row_major ?d i = k"
      using dd k by (simp_all add: i_def coords_valid coords_row_major)
    have vi': "valid_index (set_extent ?dv dm (c - a)) i" using vi by (simp add: p3(4))
    have r3: "m_model s3 ! k = m_model v ! row_major ?dv (\<lambda>d. if d = dm then i dm + a else i d)"
      using p3(6) [OF vi] ri by simp
    have ro: "m_model out ! k =
                (if i dm < b - a then m_model s1 ! row_major (m_dimensions s1) i
                 else m_model s2 ! row_major (m_dimensions s2)
                        (\<lambda>d. if d = dm then i dm - (b - a) else i d))"
      using op [unfolded e1 dims, rule_format, OF vi] ri by simp
    have up: "i dm < c - a"
    proof -
      have "i dm < extent_of (set_extent ?dv dm (c - a)) dm"
        using dd vi' dm by (intro valid_index_extentD) (simp_all add: p3(4) contains_def)
      then show ?thesis using dm by (simp add: extent_of_set_extent_same)
    qed
    show "m_model out ! k = m_model s3 ! k"
    proof (cases "i dm < b - a")
      case True
      have "valid_index (set_extent ?dv dm (b - a)) i"
        using dv dm vi' True by (rule valid_index_set_extent) simp
      then have "valid_index (m_dimensions s1) i" by (simp add: p1(4))
      from p1(6) [OF this] ro r3 True show ?thesis by simp
    next
      case False
      let ?j = "\<lambda>d. if d = dm then i dm - (b - a) else i d"
      have "valid_index (set_extent ?dv dm (c - b)) ?j"
        using dv dm vi'
      proof (rule valid_index_set_extent)
        show "?j dm < c - b" using False up ab bc by simp
        show "\<And>d. d \<noteq> dm \<Longrightarrow> ?j d = i d" by simp
      qed
      then have "valid_index (m_dimensions s2) ?j" by (simp add: p2(4))
      from p2(6) [OF this]
      have "m_model s2 ! row_major (m_dimensions s2) ?j
              = m_model v ! row_major ?dv (\<lambda>d. if d = dm then ?j dm + b else ?j d)" .
      also have "row_major ?dv (\<lambda>d. if d = dm then ?j dm + b else ?j d)
                   = row_major ?dv (\<lambda>d. if d = dm then i dm + a else i d)"
        using False ab by (intro row_major_cong) auto
      finally show ?thesis using ro r3 False by simp
    qed
  qed
  have "out = s3"
    using dims data o p1 p3 by (intro Variable.equality) simp_all
  with res show ?thesis by simp
qed

lemma length_adjacent [simp]: "length (adjacent xs) = length xs - 1"
  by (induction xs rule: adjacent.induct) auto

lemma adjacent_nth: "Suc i < length xs \<Longrightarrow> adjacent xs ! i = (xs ! i, xs ! Suc i)"
proof (induction xs arbitrary: i rule: adjacent.induct)
  case (1 x y r)
  then show ?case by (cases i) auto
qed auto

lemma adjacent_append_last:
  "ks \<noteq> [] \<Longrightarrow>
     adjacent (ks @ [n]) =
       map (\<lambda>i. (ks ! i, ks ! (i + 1))) [0..<length ks - 1] @ [(last ks, n)]"
proof (rule nth_equalityI)
  assume ne: "ks \<noteq> []"
  show "length (adjacent (ks @ [n]))
          = length (map (\<lambda>i. (ks ! i, ks ! (i + 1))) [0..<length ks - 1] @ [(last ks, n)])"
    using ne by (cases ks) simp_all
next
  fix i assume ne: "ks \<noteq> []" and "i < length (adjacent (ks @ [n]))"
  then have i: "i < length ks" by simp
  then have a: "adjacent (ks @ [n]) ! i = ((ks @ [n]) ! i, (ks @ [n]) ! Suc i)"
    by (intro adjacent_nth) simp
  show "adjacent (ks @ [n]) ! i
          = (map (\<lambda>i. (ks ! i, ks ! (i + 1))) [0..<length ks - 1] @ [(last ks, n)]) ! i"
  proof (cases "i < length ks - 1")
    case True
    then have "Suc i < length ks" by simp
    then show ?thesis using a i True by (simp add: nth_append)
  next
    case False
    with i have "i = length ks - 1" by simp
    then show ?thesis using a ne by (simp add: nth_append last_conv_nth)
  qed
qed

lemma split_as_adjacent:
  assumes "contains (m_dimensions v) dm"
  shows "split init v dm ks =
           collect (map (\<lambda>(b, e). slice_range init v dm b e)
                      (adjacent (0 # ks @ [extent_of (m_dimensions v) dm])))"
proof (cases ks)
  case Nil
  have "resize (m_dimensions v) dm (int (extent_of (m_dimensions v) dm) - int 0)
          = Inr (m_dimensions v)"
    using assms by (simp add: resize_def set_extent_id)
  then have "slice_range init v dm 0 (extent_of (m_dimensions v) dm) = Inr v"
    by (simp add: slice_range_def)
  with Nil show ?thesis by (simp add: split_def)
next
  case (Cons k r)
  then have ne: "ks \<noteq> []" by simp
  have "adjacent (0 # ks @ [extent_of (m_dimensions v) dm])
          = (0, hd ks) # adjacent (ks @ [extent_of (m_dimensions v) dm])"
    using Cons by simp
  then show ?thesis
    using ne assms
    by (simp add: split_def adjacent_append_last size_of_def comp_def)
qed

lemma collect_map_Inr:
  "(\<And>x. x \<in> set xs \<Longrightarrow> f x = Inr (g x)) \<Longrightarrow> collect (map f xs) = Inr (map g xs)"
  by (induction xs) auto

lemma set_adjacent:
  "sorted xs \<Longrightarrow> (b, e) \<in> set (adjacent xs) \<Longrightarrow> b \<le> e \<and> e \<in> set xs"
proof (induction xs rule: adjacent.induct)
  case (1 x y r)
  then show ?case by auto
qed auto

lemma slice_range_total:
  assumes "well_formed v" and "contains (m_dimensions v) dm"
    and "b \<le> e" and "e \<le> extent_of (m_dimensions v) dm"
  shows "slice_range init v dm b e = Inr (projr (slice_range init v dm b e))"
  using slice_range_spec [OF assms, of init] by auto

lemma slice_range_whole:
  assumes "contains (m_dimensions v) dm"
  shows "slice_range init v dm 0 (extent_of (m_dimensions v) dm) = Inr v"
proof -
  have "resize (m_dimensions v) dm (int (extent_of (m_dimensions v) dm) - int 0)
          = Inr (m_dimensions v)"
    using assms by (simp add: resize_def set_extent_id)
  then show ?thesis by (simp add: slice_range_def)
qed

lemma concatenate_all_slices:
  fixes v :: "'a Variable"
  assumes wf: "well_formed v" and dm: "contains (m_dimensions v) dm"
    and so: "sorted (a # b # bs)"
    and up: "\<And>x. x \<in> set (b # bs) \<Longrightarrow> x \<le> extent_of (m_dimensions v) dm"
    and rp: "extent_of (m_dimensions v) dm < 2 ^ 63"
  shows "concatenate_all init dm (projr (slice_range init v dm a b))
           (map (\<lambda>(x, y). projr (slice_range init v dm x y)) (adjacent (b # bs)))
         = Inr (projr (slice_range init v dm a (last (b # bs))))"
  using so up
proof (induction bs arbitrary: b)
  case Nil
  then show ?case by simp
next
  case (Cons b' bs)
  let ?n = "extent_of (m_dimensions v) dm"
  from Cons.prems have ab: "a \<le> b" and bb: "b \<le> b'" and bn: "b' \<le> ?n"
    by simp_all
  have s1: "slice_range init v dm a b = Inr (projr (slice_range init v dm a b))"
    using wf dm ab bb bn by (intro slice_range_total) simp_all
  have s2: "slice_range init v dm b b' = Inr (projr (slice_range init v dm b b'))"
    using wf dm bb bn by (intro slice_range_total) simp_all
  have s3: "slice_range init v dm a b' = Inr (projr (slice_range init v dm a b'))"
    using wf dm ab bb bn by (intro slice_range_total) simp_all
  have step: "concatenate init (projr (slice_range init v dm a b))
                (projr (slice_range init v dm b b')) dm
              = Inr (projr (slice_range init v dm a b'))"
    using wf dm ab bb bn s1 s2 s3 rp by (rule concatenate_slices)
  have "concatenate_all init dm (projr (slice_range init v dm a b'))
           (map (\<lambda>(x, y). projr (slice_range init v dm x y)) (adjacent (b' # bs)))
         = Inr (projr (slice_range init v dm a (last (b' # bs))))"
  proof (rule Cons.IH)
    show "sorted (a # b' # bs)" using Cons.prems(1) by auto
    show "\<And>x. x \<in> set (b' # bs) \<Longrightarrow> x \<le> ?n" using Cons.prems(2) by simp
  qed
  with step show ?case by simp
qed

lemma split_concatenate_spec:
  fixes v :: "'a Variable"
  assumes wf: "well_formed v" and dm: "contains (m_dimensions v) dm"
    and inc: "sorted_wrt (<) ks"
    and rng: "\<forall>k \<in> set ks. 0 < k \<and> k < extent_of (m_dimensions v) dm"
    and rp: "extent_of (m_dimensions v) dm < 2 ^ 63"
  shows "\<exists>parts. split init v dm ks = Inr parts
           \<and> length parts = length ks + 1
           \<and> (\<forall>i < length parts.
                 slice_range init v dm ((0 # ks) ! i)
                   ((ks @ [extent_of (m_dimensions v) dm]) ! i) = Inr (parts ! i)
                 \<and> m_type (parts ! i) = m_type v \<and> m_unit (parts ! i) = m_unit v
                 \<and> m_name (parts ! i) = m_name v
                 \<and> m_dimensions (parts ! i)
                     = set_extent (m_dimensions v) dm
                         ((ks @ [extent_of (m_dimensions v) dm]) ! i - (0 # ks) ! i)
                 \<and> well_formed (parts ! i)
                 \<and> (\<forall>c. valid_index (m_dimensions (parts ! i)) c \<longrightarrow>
                       m_model (parts ! i) ! row_major (m_dimensions (parts ! i)) c
                         = m_model v ! row_major (m_dimensions v)
                             (\<lambda>d. if d = dm then c dm + (0 # ks) ! i else c d)))
           \<and> (\<exists>out. concatenate_all init dm (hd parts) (tl parts) = Inr out
                 \<and> m_type out = m_type v \<and> m_unit out = m_unit v \<and> m_name out = m_name v
                 \<and> m_dimensions out = m_dimensions v \<and> m_model out = m_model v
                 \<and> ((\<forall>x \<in> set (m_model v). eq x x) \<longrightarrow> Variable_equal eq False out v))"
proof -
  let ?n = "extent_of (m_dimensions v) dm"
  let ?bs = "0 # ks @ [?n]"
  let ?sl = "\<lambda>(b, e). projr (slice_range init v dm b e)"
  define parts where "parts = map ?sl (adjacent ?bs)"
  have sk: "sorted ks" using inc by (simp add: strict_sorted_imp_sorted)
  have so: "sorted ?bs"
    using sk rng by (auto simp: sorted_append less_imp_le)
  have le: "x \<le> ?n" if "x \<in> set ?bs" for x
    using that rng by (auto simp: less_imp_le)
  have ok: "(\<lambda>(b, e). slice_range init v dm b e) p = Inr (?sl p)" if "p \<in> set (adjacent ?bs)" for p
  proof -
    obtain b e where p: "p = (b, e)" by (cases p)
    from set_adjacent [OF so] that p have "b \<le> e" and "e \<in> set ?bs" by auto
    with le have "e \<le> ?n" by blast
    with wf dm \<open>b \<le> e\<close> show ?thesis
      unfolding p by (simp add: slice_range_total [symmetric])
  qed
  have res: "split init v dm ks = Inr parts"
    unfolding parts_def split_as_adjacent [OF dm]
    using ok by (rule collect_map_Inr)
  have len: "length parts = length ks + 1"
    by (simp add: parts_def)
  have nth: "slice_range init v dm ((0 # ks) ! i) ((ks @ [?n]) ! i) = Inr (parts ! i)
               \<and> (0 # ks) ! i \<le> (ks @ [?n]) ! i \<and> (ks @ [?n]) ! i \<le> ?n"
    if i: "i < length parts" for i
  proof -
    from i len have i': "Suc i < length ?bs" by simp
    then have a: "adjacent ?bs ! i = (?bs ! i, ?bs ! Suc i)" by (rule adjacent_nth)
    have "?bs ! i = (0 # ks) ! i"
      using i len by (cases i) (simp_all add: nth_append)
    moreover have "?bs ! Suc i = (ks @ [?n]) ! i" by simp
    ultimately have a': "adjacent ?bs ! i = ((0 # ks) ! i, (ks @ [?n]) ! i)"
      using a by simp
    have mem: "adjacent ?bs ! i \<in> set (adjacent ?bs)"
      using i len by (intro nth_mem) simp
    from set_adjacent [OF so] mem a'
    have "(0 # ks) ! i \<le> (ks @ [?n]) ! i" and "(ks @ [?n]) ! i \<in> set ?bs" by auto
    moreover from this le have "(ks @ [?n]) ! i \<le> ?n" by blast
    moreover have "slice_range init v dm ((0 # ks) ! i) ((ks @ [?n]) ! i) = Inr (parts ! i)"
      using ok [OF mem] i len by (simp add: parts_def a')
    ultimately show ?thesis by simp
  qed
  have part: "slice_range init v dm ((0 # ks) ! i) ((ks @ [?n]) ! i) = Inr (parts ! i)
                 \<and> m_type (parts ! i) = m_type v \<and> m_unit (parts ! i) = m_unit v
                 \<and> m_name (parts ! i) = m_name v
                 \<and> m_dimensions (parts ! i)
                     = set_extent (m_dimensions v) dm ((ks @ [?n]) ! i - (0 # ks) ! i)
                 \<and> well_formed (parts ! i)
                 \<and> (\<forall>c. valid_index (m_dimensions (parts ! i)) c \<longrightarrow>
                       m_model (parts ! i) ! row_major (m_dimensions (parts ! i)) c
                         = m_model v ! row_major (m_dimensions v)
                             (\<lambda>d. if d = dm then c dm + (0 # ks) ! i else c d))"
    if i: "i < length parts" for i
  proof -
    from nth [OF i] have sl: "slice_range init v dm ((0 # ks) ! i) ((ks @ [?n]) ! i) = Inr (parts ! i)"
      and be: "(0 # ks) ! i \<le> (ks @ [?n]) ! i" and en: "(ks @ [?n]) ! i \<le> ?n"
      by simp_all
    from slice_range_spec [OF wf dm be en, of init] sl
    show ?thesis by auto
  qed
  have joined: "concatenate_all init dm (hd parts) (tl parts) = Inr v"
  proof -
    obtain b bs where bs: "ks @ [?n] = b # bs" by (cases "ks @ [?n]") simp_all
    then have la: "last (b # bs) = ?n" by (metis last_snoc)
    have p: "parts = projr (slice_range init v dm 0 b) # map ?sl (adjacent (b # bs))"
      using bs by (simp add: parts_def)
    have "concatenate_all init dm (projr (slice_range init v dm 0 b)) (map ?sl (adjacent (b # bs)))
            = Inr (projr (slice_range init v dm 0 (last (b # bs))))"
      using wf dm
    proof (rule concatenate_all_slices)
      show "sorted (0 # b # bs)" using so bs by simp
      show "\<And>x. x \<in> set (b # bs) \<Longrightarrow> x \<le> ?n" using le bs by (metis list.set_intros(2))
      show "?n < 2 ^ 63" by (rule rp)
    qed
    then show ?thesis
      using p la slice_range_whole [OF dm, of init] by simp
  qed
  have same: "(\<forall>x \<in> set (m_model v). eq x x) \<longrightarrow> Variable_equal eq False v v"
    by (simp add: Variable_equal_def VariableModel_equal_def isContiguousIn_def equal_elems_def
        list_all2_same)
  have again: "\<exists>out. concatenate_all init dm (hd parts) (tl parts) = Inr out
                 \<and> m_type out = m_type v \<and> m_unit out = m_unit v \<and> m_name out = m_name v
                 \<and> m_dimensions out = m_dimensions v \<and> m_model out = m_model v
                 \<and> ((\<forall>x \<in> set (m_model v). eq x x) \<longrightarrow> Variable_equal eq False out v)"
    using joined same by (intro exI [of _ v]) simp
  have parts: "\<forall>i < length parts.
                 slice_range init v dm ((0 # ks) ! i) ((ks @ [?n]) ! i) = Inr (parts ! i)
                 \<and> m_type (parts ! i) = m_type v \<and> m_unit (parts ! i) = m_unit v
                 \<and> m_name (parts ! i) = m_name v
                 \<and> m_dimensions (parts ! i)
                     = set_extent (m_dimensions v) dm ((ks @ [?n]) ! i - (0 # ks) ! i)
                 \<and> well_formed (parts ! i)
                 \<and> (\<forall>c. valid_index (m_dimensions (parts ! i)) c \<longrightarrow>
                       m_model (parts ! i) ! row_major (m_dimensions (parts ! i)) c
                         = m_model v ! row_major (m_dimensions v)
                             (\<lambda>d. if d = dm then c dm + (0 # ks) ! i else c d))"
    using part by blast
  show ?thesis
    by (rule exI [of _ parts]) (intro conjI res len parts again)
qed


text \<open>
  C9 (amended).  For a well-formed Variable \<open>v\<close> that has the dimension \<open>dm\<close> with
  extent \<open>n\<close> (a \<open>gsl::index\<close>, so below \<open>2 ^ 63\<close>) and a strictly increasing list of
  positions \<open>ks\<close> strictly between \<open>0\<close> and \<open>n\<close>: \<open>split(v, dm, ks)\<close> returns
  \<open>length ks + 1\<close> Variables.  The \<open>i\<close>-th is the range slice of \<open>v\<close> from \<open>b\<close>, the
  \<open>i\<close>-th entry of \<open>0 # ks\<close>, to \<open>e\<close>, the \<open>i\<close>-th entry of \<open>ks @ [n]\<close>: it has the tag,
  unit and name of \<open>v\<close>, the dimensions of \<open>v\<close> with the extent along \<open>dm\<close> replaced by
  \<open>e - b\<close>, and at every index \<open>c\<close> the element of \<open>v\<close> at \<open>c\<close> with \<open>c dm\<close> moved up by
  \<open>b\<close>.  Concatenating the parts in order along \<open>dm\<close> gives a Variable with the tag,
  unit, name, dimensions and elements of \<open>v\<close>; \<open>operator==\<close> holds between it and \<open>v\<close>
  when the \<open>operator==\<close> of the element type, \<open>eq\<close>, is reflexive on the elements of
  \<open>v\<close>.
\<close>

theorem split_concatenate_round_trip:
  fixes v :: "'a Variable"
  assumes wf: "well_formed v" and dm: "contains (m_dimensions v) dm"
    and inc: "sorted_wrt (<) ks"
    and rng: "\<forall>k \<in> set ks. 0 < k \<and> k < extent_of (m_dimensions v) dm"
    and rp: "extent_of (m_dimensions v) dm < 2 ^ 63"
  shows "\<exists>parts. split init v dm ks = Inr parts
           \<and> length parts = length ks + 1
           \<and> (\<forall>i < length parts.
                 slice_range init v dm ((0 # ks) ! i)
                   ((ks @ [extent_of (m_dimensions v) dm]) ! i) = Inr (parts ! i)
                 \<and> m_type (parts ! i) = m_type v \<and> m_unit (parts ! i) = m_unit v
                 \<and> m_name (parts ! i) = m_name v
                 \<and> m_dimensions (parts ! i)
                     = set_extent (m_dimensions v) dm
                         ((ks @ [extent_of (m_dimensions v) dm]) ! i - (0 # ks) ! i)
                 \<and> well_formed (parts ! i)
                 \<and> (\<forall>c. valid_index (m_dimensions (parts ! i)) c \<longrightarrow>
                       m_model (parts ! i) ! row_major (m_dimensions (parts ! i)) c
                         = m_model v ! row_major (m_dimensions v)
                             (\<lambda>d. if d = dm then c dm + (0 # ks) ! i else c d)))
           \<and> (\<exists>out. concatenate_all init dm (hd parts) (tl parts) = Inr out
                 \<and> m_type out = m_type v \<and> m_unit out = m_unit v \<and> m_name out = m_name v
                 \<and> m_dimensions out = m_dimensions v \<and> m_model out = m_model v
                 \<and> ((\<forall>x \<in> set (m_model v). eq x x) \<longrightarrow> Variable_equal eq False out v))"
  using wf dm inc rng rp by (rule split_concatenate_spec)

text \<open>
  C9 as stated fails where the equality of the element type is not reflexive.  The
  elements of a value-initialised \<open>Coord::FuzzyTemperature\<close> variable have delta 0 and
  are not equal to themselves; the concatenation of the parts holds the elements of the
  variable in a buffer of its own (\<open>concatenate\<close> allocates it), and \<open>operator==\<close>
  compares it with the variable element by element.
\<close>

theorem split_concatenate_not_equal_counterexample:
  "\<exists>parts out. split ValueWithDelta_default fuzzy X [1] = Inr parts
      \<and> length parts = 2
      \<and> concatenate_all ValueWithDelta_default X (hd parts) (tl parts) = Inr out
      \<and> m_model out = m_model fuzzy
      \<and> \<not> Variable_equal vwd_eq False out fuzzy"
proof -
  have wf: "well_formed fuzzy"
    by (simp add: well_formed_def fuzzy_def labels_def)
  have dm: "contains (m_dimensions fuzzy) X" by (simp add: fuzzy_def)
  have inc: "sorted_wrt (<) [1 :: nat]" by simp
  have rng: "\<forall>k \<in> set [1 :: nat]. 0 < k \<and> k < extent_of (m_dimensions fuzzy) X"
    by (simp add: fuzzy_def)
  have rp: "extent_of (m_dimensions fuzzy) X < 2 ^ 63" by (simp add: fuzzy_def)
  from split_concatenate_spec [OF wf dm inc rng rp, of ValueWithDelta_default vwd_eq]
  obtain parts out where p: "split ValueWithDelta_default fuzzy X [1] = Inr parts"
    and l: "length parts = length [1 :: nat] + 1"
    and c: "concatenate_all ValueWithDelta_default X (hd parts) (tl parts) = Inr out"
    and o: "m_type out = m_type fuzzy" "m_unit out = m_unit fuzzy" "m_name out = m_name fuzzy"
      "m_dimensions out = m_dimensions fuzzy" "m_model out = m_model fuzzy"
    by (elim exE conjE)
  have "\<not> Variable_equal vwd_eq False out fuzzy"
    by (simp add: Variable_equal_def VariableModel_equal_def o isContiguousIn_def
        equal_elems_def fuzzy_def vwd_eq_def ValueWithDelta_default_def)
  with p l c o(5) show ?thesis by (intro exI [of _ parts] exI [of _ out]) simp
qed

text \<open>The theorem for a \<open>2 \<times> 3\<close> variable split along its inner dimension at 1 and 2.\<close>

theorem split_concatenate_round_trip_witness:
  "well_formed (mkv [(Y, 2), (X, 3)] [1, 2, 3, 4, 5, 6])
   \<and> contains [(Y, 2), (X, 3)] X
   \<and> sorted_wrt (<) [1, 2 :: nat]
   \<and> (0 :: nat) < 1 \<and> 1 < extent_of [(Y, 2), (X, 3)] X
   \<and> (0 :: nat) < 2 \<and> 2 < extent_of [(Y, 2), (X, 3)] X
   \<and> extent_of [(Y, 2), (X, 3)] X < 2 ^ 63
   \<and> (\<exists>parts. split 0 (mkv [(Y, 2), (X, 3)] [1, 2, 3, 4, 5, 6]) X [1, 2] = Inr parts
          \<and> length parts = 3
          \<and> map m_dimensions parts = [[(Y, 2), (X, 1)], [(Y, 2), (X, 1)], [(Y, 2), (X, 1)]]
          \<and> (\<exists>out. concatenate_all 0 X (hd parts) (tl parts) = Inr out
                \<and> m_dimensions out = [(Y, 2), (X, 3)]
                \<and> m_model out = [1, 2, 3, 4, 5, 6]
                \<and> Variable_equal (=) False out (mkv [(Y, 2), (X, 3)] [1, 2, 3, 4, 5, 6])))"
proof -
  let ?w = "mkv [(Y, 2), (X, 3)] [1, 2, 3, 4, 5, 6]"
  have wf: "well_formed ?w"
    by (simp add: well_formed_def mkv_def labels_def volume_def)
  have dm: "contains (m_dimensions ?w) X"
    by (simp add: mkv_def)
  have inc: "sorted_wrt (<) [1, 2 :: nat]" by simp
  have rng: "\<forall>k \<in> set [1, 2 :: nat]. 0 < k \<and> k < extent_of (m_dimensions ?w) X"
    by (simp add: mkv_def)
  have rp: "extent_of (m_dimensions ?w) X < 2 ^ 63" by (simp add: mkv_def)
  from split_concatenate_round_trip [OF wf dm inc rng rp, of 0 "(=)"]
  obtain parts out where p: "split 0 ?w X [1, 2] = Inr parts"
    and l: "length parts = length [1, 2 :: nat] + 1"
    and d: "\<forall>i < length parts.
              m_dimensions (parts ! i)
                = set_extent (m_dimensions ?w) X
                    (([1, 2] @ [extent_of (m_dimensions ?w) X]) ! i - (0 # [1, 2]) ! i)"
    and c: "concatenate_all 0 X (hd parts) (tl parts) = Inr out"
    and o: "m_dimensions out = m_dimensions ?w" "m_model out = m_model ?w"
    and e: "(\<forall>x \<in> set (m_model ?w). x = x) \<longrightarrow> Variable_equal (=) False out ?w"
    by (elim exE conjE) blast
  have l3: "length parts = 3" using l by simp
  have d0: "m_dimensions (parts ! 0) = [(Y, 2), (X, 1)]"
    using d [rule_format, of 0] l3 by (simp add: mkv_def)
  have d1: "m_dimensions (parts ! 1) = [(Y, 2), (X, 1)]"
    using d [rule_format, of 1] l3 by (simp add: mkv_def)
  have d2: "m_dimensions (parts ! 2) = [(Y, 2), (X, 1)]"
    using d [rule_format, of 2] l3 by (simp add: mkv_def)
  have md: "map m_dimensions parts = [[(Y, 2), (X, 1)], [(Y, 2), (X, 1)], [(Y, 2), (X, 1)]]"
  proof (rule nth_equalityI)
    show "length (map m_dimensions parts)
            = length [[(Y, 2), (X, 1 :: nat)], [(Y, 2), (X, 1)], [(Y, 2), (X, 1)]]"
      using l3 by simp
  next
    fix i assume "i < length (map m_dimensions parts)"
    then have "i = 0 \<or> i = 1 \<or> i = 2" using l3 by auto
    then show "map m_dimensions parts ! i
                 = [[(Y, 2), (X, 1)], [(Y, 2), (X, 1)], [(Y, 2), (X, 1)]] ! i"
      using d0 d1 d2 l3 by auto
  qed
  have eq: "Variable_equal (=) False out ?w" using e by simp
  have "\<exists>parts. split 0 ?w X [1, 2] = Inr parts \<and> length parts = 3
          \<and> map m_dimensions parts = [[(Y, 2), (X, 1)], [(Y, 2), (X, 1)], [(Y, 2), (X, 1)]]
          \<and> (\<exists>out. concatenate_all 0 X (hd parts) (tl parts) = Inr out
                \<and> m_dimensions out = [(Y, 2), (X, 3)]
                \<and> m_model out = [1, 2, 3, 4, 5, 6]
                \<and> Variable_equal (=) False out ?w)"
    using p l3 md c o eq by (intro exI [of _ parts] conjI exI [of _ out]) (simp_all add: mkv_def)
  with wf dm inc rng rp show ?thesis
    by (simp add: mkv_def)
qed

lemma elem_type_Data_String: "elem_type Data_String = E_string"
  by code_simp

lemma elem_type_Data_Value: "elem_type Data_Value = E_double"
  by code_simp

lemma Data_String_not_Events: "Data_String \<noteq> Data_Events"
  by (simp add: Data_String_def Data_Events_def)

lemma Data_Value_not_Events: "Data_Value \<noteq> Data_Events" "Data_Value \<noteq> Data_Table"
  by (simp_all add: Data_Value_def Data_Events_def Data_Table_def)

text \<open>
  Claim C4: a failed \<open>+=\<close>, \<open>-=\<close> or \<open>*=\<close> leaves the unit, the dimensions and the elements
  of the left-hand side as they were; in particular \<open>operator*=\<close> does not leave the unit
  replaced by the product of the units when the element-wise multiplication throws.
  The code does: \<open>Variable::operator*=\<close> assigns \<open>m_unit\<close> before it multiplies the
  elements.  For a \<open>Data::String\<close> variable with unit \<open>Length\<close>, \<open>a *= b\<close> with \<open>b\<close> a copy
  of \<open>a\<close> throws "Cannot add strings" and \<open>a\<close> is left with unit \<open>Area\<close>.
\<close>

theorem times_assign_leaves_unit_replaced:
  "times_assign unit_times (@) string_var (operand string_var)
     = (string_var\<lparr>m_unit := Area\<rparr>, Some CannotAddStrings)
   \<and> m_unit string_var = Length"
  by (simp add: times_assign_def string_var_def operand_def contains_dims_def apply_op_def
      ArithmeticHelper_apply_def elem_type_Data_String isContiguous_def isContiguousIn_def
      Data_String_not_Events Let_def)

lemma VariableSlice_var2x2:
  "VariableSlice var2x2 st Y 0 (- 1)
     = Inr \<lparr>o_type = Data_Value, o_unit = Dimensionless, o_dimensions = [(X, 2)],
            o_view = Some (0, [(Y, 2), (X, 2)]), o_storage = st\<rparr>"
  by (simp add: VariableSlice_def makeView_def var2x2_def mkv_def erase_def contains_def)

text \<open>
  Claim C6: a right-hand side that is a slice of the left-hand side's own storage is
  copied into a temporary before the operation, so that \<open>var -= var(Dim::Y, 0)\<close> on
  \<open>{Y:2, X:2}\<close> with values \<open>[1, 2, 3, 4]\<close> gives \<open>[0, 0, 2, 2]\<close>.  The code makes no copy:
  \<open>std::transform\<close> reads the slice from the buffer it is writing, and the result is
  \<open>[0, 0, 3, 4]\<close>; \<open>[0, 0, 2, 2]\<close> is the result for the slice of a copy of \<open>var\<close>.
\<close>

theorem minus_assign_self_slice_not_materialised:
  "(case VariableSlice var2x2 Shared Y 0 (- 1) of
      Inl e \<Rightarrow> None
    | Inr s \<Rightarrow> Some (minus_assign (-) var2x2 s))
     = Some (var2x2\<lparr>m_model := [0, 0, 3, 4]\<rparr>, None)
   \<and> (case VariableSlice var2x2 (Separate (m_model var2x2)) Y 0 (- 1) of
      Inl e \<Rightarrow> None
    | Inr s \<Rightarrow> Some (minus_assign (-) var2x2 s))
     = Some (var2x2\<lparr>m_model := [0, 0, 2, 2]\<rparr>, None)"
  unfolding VariableSlice_var2x2
  by (simp add: minus_assign_def var2x2_def mkv_def contains_dims_def apply_op_def
      ArithmeticHelper_apply_def elem_type_Data_Value isContiguous_def isContiguousIn_def
      operand_view_def stride_def contains_def span_def
      read_elem_def Data_Value_not_Events Let_def upt_rec)

lemma elem_type_Data_Events: "elem_type Data_Events = E_Dataset"
  by code_simp

lemma elem_type_Data_Table: "elem_type Data_Table = E_Dataset"
  by code_simp

lemma transform_separate_aux:
  "length ss = length cur - i \<Longrightarrow> i \<le> length cur \<Longrightarrow> \<forall>s\<in>set ss. s < length ys
     \<Longrightarrow> transform op (Separate ys) [i..<length cur] ss cur
         = Inr (take i cur @ map (\<lambda>(x, s). op x (ys ! s)) (zip (drop i cur) ss))"
proof (induction ss arbitrary: i cur)
  case Nil
  then show ?case by simp
next
  case (Cons s ss)
  from Cons.prems have i: "i < length cur" by simp
  let ?cur = "cur[i := op (cur ! i) (ys ! s)]"
  have step: "transform op (Separate ys) [i..<length cur] (s # ss) cur
                = transform op (Separate ys) [Suc i..<length ?cur] ss ?cur"
    using i Cons.prems by (simp add: upt_conv_Cons read_elem_def)
  have ih: "transform op (Separate ys) [Suc i..<length ?cur] ss ?cur
              = Inr (take (Suc i) ?cur @ map (\<lambda>(x, s). op x (ys ! s)) (zip (drop (Suc i) ?cur) ss))"
    using Cons.prems i by (intro Cons.IH) auto
  have t: "take (Suc i) ?cur = take i cur @ [op (cur ! i) (ys ! s)]"
    using i by (simp add: take_Suc_conv_app_nth)
  have d: "drop i cur = cur ! i # drop (Suc i) cur"
    using i by (simp add: Cons_nth_drop_Suc)
  show ?case
    unfolding step ih t by (simp add: d)
qed

lemma transform_separate:
  assumes "length ss = length cur" and "\<forall>s\<in>set ss. s < length ys"
  shows "transform op (Separate ys) (span 0 (length cur)) ss cur
           = Inr (map (\<lambda>(x, s). op x (ys ! s)) (zip cur ss))"
  using transform_separate_aux [of ss cur 0 ys op] assms by (simp add: span_def)

lemma valid_index_subset:
  "set other \<subseteq> set dims \<Longrightarrow> valid_index dims c \<Longrightarrow> valid_index other c"
  by (auto simp: valid_index_def)

lemma contiguous_contained_eq:
  assumes "isContiguousIn dims other" and "set other \<subseteq> set dims" and "distinct (map fst other)"
  shows "other = dims"
proof (cases "dims = []")
  case True
  then show ?thesis using assms(2) by simp
next
  case False
  with assms(1) have le: "length dims \<le> length other"
    and dr: "drop (length other - length dims) other = dims"
    by (simp_all add: isContiguousIn_def)
  have "distinct other" using assms(3) by (rule distinct_map [THEN iffD1, THEN conjunct1])
  then have "length other = card (set other)" by (simp add: distinct_card)
  also have "\<dots> \<le> card (set dims)" using assms(2) by (simp add: card_mono)
  also have "\<dots> \<le> length dims" by (rule card_length)
  finally have "length other = length dims" using le by simp
  with dr show ?thesis by simp
qed

lemma view_in_range:
  assumes da: "distinct (map fst dims)" and db: "distinct (map fst other)"
    and sub: "set other \<subseteq> set dims"
  shows "\<forall>s\<in>set (view_offsets dims (stride other) 0). s < volume other"
proof
  fix s assume "s \<in> set (view_offsets dims (stride other) 0)"
  then obtain k where k: "k < volume dims" and s: "s = view_offsets dims (stride other) 0 ! k"
    by (auto simp: in_set_conv_nth)
  let ?c = "coords dims k"
  have v: "valid_index dims ?c" using da k by (rule coords_valid)
  have rm: "row_major dims ?c = k" using da k by (rule coords_row_major)
  have lab: "set (map fst other) \<subseteq> set (map fst dims)" using sub by auto
  have "s = strided dims (stride other) ?c"
    using view_offsets_nth [OF v, of "stride other" 0] s rm by simp
  also have "\<dots> = row_major other ?c" using da db lab by (rule strided_perm)
  also have "\<dots> < volume other"
    using valid_index_subset [OF sub v] by (rule row_major_less)
  finally show "s < volume other" .
qed

lemma apply_op_plus:
  assumes types: "elem_type (m_type a) = E_double" "elem_type (m_type b) = E_double"
    and wfa: "well_formed a" and wfb: "well_formed b"
    and sub: "contains_dims (m_dimensions a) (m_dimensions b)"
  shows "apply_op op a (operand b)
           = Inr (map (\<lambda>(x, s). op x (m_model b ! s))
                    (zip (m_model a)
                       (view_offsets (m_dimensions a) (stride (m_dimensions b)) 0)))"
proof -
  let ?A = "m_dimensions a" and ?B = "m_dimensions b"
  have da: "distinct (map fst ?A)" and la: "length (m_model a) = volume ?A"
    using wfa by (simp_all add: well_formed_def labels_def)
  have db: "distinct (map fst ?B)" and lb: "length (m_model b) = volume ?B"
    using wfb by (simp_all add: well_formed_def labels_def)
  have sub': "set ?B \<subseteq> set ?A" using sub by (simp add: contains_dims_def)
  let ?ss = "view_offsets ?A (stride ?B) 0"
  have len: "length ?ss = length (m_model a)" by (simp add: la)
  have rng: "\<forall>s\<in>set ?ss. s < length (m_model b)"
    using view_in_range [OF da db sub'] by (simp add: lb)
  have tr: "transform op (Separate (m_model b)) (span 0 (length (m_model a))) ?ss (m_model a)
              = Inr (map (\<lambda>(x, s). op x (m_model b ! s)) (zip (m_model a) ?ss))"
    using len rng by (rule transform_separate)
  have contig: "isContiguousIn ?A ?B \<Longrightarrow> span 0 (length (m_model b)) = ?ss"
  proof -
    assume "isContiguousIn ?A ?B"
    then have "?B = ?A" using sub' db by (rule contiguous_contained_eq)
    then show ?thesis using view_offsets_identity [OF da] by (simp add: span_def lb)
  qed
  show ?thesis
  proof (cases "isContiguousIn ?A ?B")
    case True
    then show ?thesis
      using contig [OF True] tr
      by (simp add: apply_op_def operand_def types ArithmeticHelper_apply_def isContiguous_def
          operand_span_def)
  next
    case False
    then show ?thesis
      using tr
      by (simp add: apply_op_def operand_def types ArithmeticHelper_apply_def isContiguous_def
          operand_view_def makeVariableView_def)
  qed
qed

lemma plus_assign_elements:
  assumes types: "elem_type (m_type a) = E_double" "elem_type (m_type b) = E_double"
    and units: "m_unit a = m_unit b"
    and wfa: "well_formed a" and wfb: "well_formed b"
    and sub: "contains_dims (m_dimensions a) (m_dimensions b)"
  shows "plus_assign (+) dd dc a (operand b) = (a\<lparr>m_model := broadcast_sum a b\<rparr>, None)"
proof -
  let ?A = "m_dimensions a" and ?B = "m_dimensions b"
  have da: "distinct (map fst ?A)" and la: "length (m_model a) = volume ?A"
    using wfa by (simp_all add: well_formed_def labels_def)
  have db: "distinct (map fst ?B)"
    using wfb by (simp_all add: well_formed_def labels_def)
  have sub': "set ?B \<subseteq> set ?A" using sub by (simp add: contains_dims_def)
  have lab: "set (map fst ?B) \<subseteq> set (map fst ?A)" using sub' by auto
  have ne: "m_type a \<noteq> Data_Events" "m_type a \<noteq> Data_Table"
    using types(1) elem_type_Data_Events elem_type_Data_Table by auto
  let ?ss = "view_offsets ?A (stride ?B) 0"
  have eq: "map (\<lambda>(x, s). x + m_model b ! s) (zip (m_model a) ?ss) = broadcast_sum a b"
  proof (rule nth_equalityI)
    show "length (map (\<lambda>(x, s). x + m_model b ! s) (zip (m_model a) ?ss))
            = length (broadcast_sum a b)"
      by (simp add: broadcast_sum_def la)
  next
    fix k assume "k < length (map (\<lambda>(x, s). x + m_model b ! s) (zip (m_model a) ?ss))"
    then have k: "k < volume ?A" by (simp add: la)
    let ?c = "coords ?A k"
    have v: "valid_index ?A ?c" using da k by (rule coords_valid)
    have rm: "row_major ?A ?c = k" using da k by (rule coords_row_major)
    have "?ss ! k = strided ?A (stride ?B) ?c"
      using view_offsets_nth [OF v, of "stride ?B" 0] rm by simp
    also have "\<dots> = row_major ?B ?c" using da db lab by (rule strided_perm)
    finally have "?ss ! k = row_major ?B ?c" .
    then show "map (\<lambda>(x, s). x + m_model b ! s) (zip (m_model a) ?ss) ! k
                 = broadcast_sum a b ! k"
      using k by (simp add: broadcast_sum_def la)
  qed
  show ?thesis
    using apply_op_plus [OF types wfa wfb sub, of "(+)"] units ne sub
    by (simp add: plus_assign_def operand_def eq)
qed

lemma broadcast_sum_nth:
  assumes wfa: "well_formed a" and sub: "set (m_dimensions b) \<subseteq> set (m_dimensions a)"
    and v: "valid_index (m_dimensions a) c"
  shows "broadcast_sum a b ! row_major (m_dimensions a) c
           = m_model a ! row_major (m_dimensions a) c
             + m_model b ! row_major (m_dimensions b) c"
proof -
  let ?A = "m_dimensions a" and ?B = "m_dimensions b"
  have da: "distinct (map fst ?A)" and la: "length (m_model a) = volume ?A"
    using wfa by (simp_all add: well_formed_def labels_def)
  define k where "k = row_major ?A c"
  have k: "k < volume ?A" unfolding k_def using v by (rule row_major_less)
  have vk: "valid_index ?A (coords ?A k)" using da k by (rule coords_valid)
  have rk: "row_major ?A (coords ?A k) = row_major ?A c"
    unfolding k_def [symmetric] using da k by (rule coords_row_major)
  have same: "coords ?A k d = c d" if "d \<in> set (map fst ?A)" for d
    using vk v rk that by (rule row_major_inj)
  have "row_major ?B (coords ?A k) = row_major ?B c"
  proof (rule row_major_cong)
    fix d assume "d \<in> set (map fst ?B)"
    then have "d \<in> set (map fst ?A)" using sub by auto
    then show "coords ?A k d = c d" by (rule same)
  qed
  then show ?thesis
    unfolding k_def [symmetric] using k by (simp add: broadcast_sum_def la)
qed

lemma broadcast_sum_scalar:
  assumes "m_dimensions b = []"
  shows "broadcast_sum a b = map (\<lambda>x. x + m_model b ! 0) (m_model a)"
  by (rule nth_equalityI) (simp_all add: broadcast_sum_def assms)

lemma broadcast_sum_stored:
  assumes wfa: "well_formed a" and dims: "m_dimensions b' = m_dimensions a"
    and elems: "\<forall>c. valid_index (m_dimensions a) c \<longrightarrow>
                  m_model b' ! row_major (m_dimensions a) c
                    = m_model b ! row_major (m_dimensions b) c"
  shows "broadcast_sum a b' = broadcast_sum a b"
proof (rule nth_equalityI)
  show "length (broadcast_sum a b') = length (broadcast_sum a b)"
    by (simp add: broadcast_sum_def)
next
  let ?A = "m_dimensions a"
  have da: "distinct (map fst ?A)" and la: "length (m_model a) = volume ?A"
    using wfa by (simp_all add: well_formed_def labels_def)
  fix k assume "k < length (broadcast_sum a b')"
  then have k: "k < volume ?A" by (simp add: broadcast_sum_def la)
  have vk: "valid_index ?A (coords ?A k)" using da k by (rule coords_valid)
  show "broadcast_sum a b' ! k = broadcast_sum a b ! k"
    using k elems [rule_format, OF vk] by (simp add: broadcast_sum_def la dims)
qed

text \<open>
  Claim C3: for double-element Variables \<open>a\<close> and \<open>b\<close> with equal units, \<open>a += b\<close>
  succeeds when the dimensions of \<open>a\<close> contain those of \<open>b\<close>, and adds to the element of
  \<open>a\<close> at every multi-index \<open>c\<close> the element of \<open>b\<close> at \<open>c\<close> restricted to the dimensions of
  \<open>b\<close> (stride 0 for a Dim absent from \<open>b\<close>, transposed access for permuted Dims).  A
  rank-0 \<open>b\<close> adds its scalar to every element, and a \<open>b\<close> in another dimension order
  gives the same result as \<open>b'\<close>, the same elements stored in the dimension order of
  \<open>a\<close>.  When the dimensions of \<open>a\<close> do not contain those of \<open>b\<close>, the operation fails
  with "Dimensions do not match" and \<open>a\<close> is unchanged.
\<close>

theorem plus_assign_broadcast_transpose:
  assumes types: "elem_type (m_type a) = E_double" "elem_type (m_type b) = E_double"
    and units: "m_unit a = m_unit b"
    and wfa: "well_formed a" and wfb: "well_formed b"
  shows "if contains_dims (m_dimensions a) (m_dimensions b)
         then plus_assign (+) dd dc a (operand b) = (a\<lparr>m_model := broadcast_sum a b\<rparr>, None)
            \<and> length (broadcast_sum a b) = length (m_model a)
            \<and> (\<forall>c. valid_index (m_dimensions a) c \<longrightarrow>
                  valid_index (m_dimensions b) c
                  \<and> broadcast_sum a b ! row_major (m_dimensions a) c
                      = m_model a ! row_major (m_dimensions a) c
                        + m_model b ! row_major (m_dimensions b) c)
            \<and> (m_dimensions b = [] \<longrightarrow>
                  broadcast_sum a b = map (\<lambda>x. x + m_model b ! 0) (m_model a))
            \<and> (\<forall>b'. elem_type (m_type b') = E_double \<and> m_unit b' = m_unit b
                     \<and> well_formed b' \<and> m_dimensions b' = m_dimensions a
                     \<and> (\<forall>c. valid_index (m_dimensions a) c \<longrightarrow>
                           m_model b' ! row_major (m_dimensions a) c
                             = m_model b ! row_major (m_dimensions b) c)
                  \<longrightarrow> plus_assign (+) dd dc a (operand b')
                        = plus_assign (+) dd dc a (operand b))
         else plus_assign (+) dd dc a (operand b) = (a, Some DimensionsDoNotMatch)"
proof (cases "contains_dims (m_dimensions a) (m_dimensions b)")
  case True
  then have sub: "set (m_dimensions b) \<subseteq> set (m_dimensions a)"
    by (simp add: contains_dims_def)
  have res: "plus_assign (+) dd dc a (operand b) = (a\<lparr>m_model := broadcast_sum a b\<rparr>, None)"
    using types units wfa wfb True by (rule plus_assign_elements)
  have len: "length (broadcast_sum a b) = length (m_model a)"
    by (simp add: broadcast_sum_def)
  have pt: "\<forall>c. valid_index (m_dimensions a) c \<longrightarrow>
              valid_index (m_dimensions b) c
              \<and> broadcast_sum a b ! row_major (m_dimensions a) c
                  = m_model a ! row_major (m_dimensions a) c
                    + m_model b ! row_major (m_dimensions b) c"
    using broadcast_sum_nth [OF wfa sub] valid_index_subset [OF sub] by blast
  have sc: "m_dimensions b = [] \<longrightarrow>
              broadcast_sum a b = map (\<lambda>x. x + m_model b ! 0) (m_model a)"
    using broadcast_sum_scalar [of b a] by blast
  have st: "\<forall>b'. elem_type (m_type b') = E_double \<and> m_unit b' = m_unit b
                 \<and> well_formed b' \<and> m_dimensions b' = m_dimensions a
                 \<and> (\<forall>c. valid_index (m_dimensions a) c \<longrightarrow>
                       m_model b' ! row_major (m_dimensions a) c
                         = m_model b ! row_major (m_dimensions b) c)
              \<longrightarrow> plus_assign (+) dd dc a (operand b')
                    = plus_assign (+) dd dc a (operand b)"
  proof (intro allI impI, elim conjE)
    fix b' :: "real Variable"
    assume t': "elem_type (m_type b') = E_double" and u': "m_unit b' = m_unit b"
      and wf': "well_formed b'" and d': "m_dimensions b' = m_dimensions a"
      and e': "\<forall>c. valid_index (m_dimensions a) c \<longrightarrow>
                 m_model b' ! row_major (m_dimensions a) c
                   = m_model b ! row_major (m_dimensions b) c"
    have c': "contains_dims (m_dimensions a) (m_dimensions b')"
      by (simp add: contains_dims_def d')
    have u'': "m_unit a = m_unit b'" using units u' by simp
    have "plus_assign (+) dd dc a (operand b') = (a\<lparr>m_model := broadcast_sum a b'\<rparr>, None)"
      using types(1) t' u'' wfa wf' c' by (rule plus_assign_elements)
    also have "broadcast_sum a b' = broadcast_sum a b"
      using wfa d' e' by (rule broadcast_sum_stored)
    finally show "plus_assign (+) dd dc a (operand b') = plus_assign (+) dd dc a (operand b)"
      using res by simp
  qed
  show ?thesis
    using True res len pt sc st by (simp only: if_True simp_thms)
next
  case False
  have ne: "m_type a \<noteq> Data_Events" "m_type a \<noteq> Data_Table"
    using types(1) elem_type_Data_Events elem_type_Data_Table by auto
  have "plus_assign (+) dd dc a (operand b) = (a, Some DimensionsDoNotMatch)"
    using False units ne by (simp add: plus_assign_def operand_def)
  with False show ?thesis by simp
qed

text \<open>\<open>TEST(Variable, operator_plus_equal_transpose)\<close>.\<close>

theorem plus_assign_broadcast_transpose_witness:
  "elem_type (m_type (mkv [(Y, 3), (X, 2)] [1, 2, 3, 4, 5, 6])) = E_double
   \<and> well_formed (mkv [(Y, 3), (X, 2)] [1, 2, 3, 4, 5, 6])
   \<and> well_formed (mkv [(X, 2), (Y, 3)] [1, 3, 5, 2, 4, 6])
   \<and> contains_dims [(Y, 3), (X, 2)] [(X, 2), (Y, 3)]
   \<and> plus_assign (+) (\<lambda>x. []) (\<lambda>x y d. Inr x) (mkv [(Y, 3), (X, 2)] [1, 2, 3, 4, 5, 6])
         (operand (mkv [(X, 2), (Y, 3)] [1, 3, 5, 2, 4, 6]))
       = (mkv [(Y, 3), (X, 2)] [2, 4, 6, 8, 10, 12], None)"
proof -
  let ?a = "mkv [(Y, 3), (X, 2)] [1, 2, 3, 4, 5, 6]"
  let ?b = "mkv [(X, 2), (Y, 3)] [1, 3, 5, 2, 4, 6]"
  have t: "elem_type (m_type ?a) = E_double" "elem_type (m_type ?b) = E_double"
    by (simp_all add: mkv_def elem_type_Data_Value)
  have u: "m_unit ?a = m_unit ?b" by (simp add: mkv_def)
  have wa: "well_formed ?a" by (simp add: well_formed_def mkv_def labels_def)
  have wb: "well_formed ?b" by (simp add: well_formed_def mkv_def labels_def)
  have c: "contains_dims (m_dimensions ?a) (m_dimensions ?b)"
    by (simp add: contains_dims_def mkv_def)
  have bs: "broadcast_sum ?a ?b = [2, 4, 6, 8, 10, 12]"
    by (simp add: broadcast_sum_def mkv_def upt_rec)
  have "plus_assign (+) (\<lambda>x. []) (\<lambda>x y d. Inr x) ?a (operand ?b)
          = (?a\<lparr>m_model := broadcast_sum ?a ?b\<rparr>, None)"
    using plus_assign_broadcast_transpose [OF t u wa wb, of "\<lambda>x. []" "\<lambda>x y d. Inr x"] c
    by (simp only: if_True)
  then have "plus_assign (+) (\<lambda>x. []) (\<lambda>x y d. Inr x) ?a (operand ?b)
          = (mkv [(Y, 3), (X, 2)] [2, 4, 6, 8, 10, 12], None)"
    unfolding bs by (simp add: mkv_def)
  with t wa wb c show ?thesis by (simp add: mkv_def)
qed

lemma elem_type_Coord_X: "elem_type Coord_X = E_double"
  by code_simp

lemma coordDimension_Coord_X: "coordDimension Coord_X = X"
  by (simp add: coordDimension_def Coord_X_def Coord_Tof_def)

lemmas rebin_eval =
  rebin_def edges_X_def mkv_def coordDimension_Coord_X elem_type_Coord_X elem_type_Data_Value
  size_of_def resize_def contains_def setDimensions_def VariableModel_rebin_def label_def
  ndim_def rebinInner_def Let_def

lemma replicate_2: "replicate 2 x = [x, x]"
  by (simp add: numeral_2_eq_2)

lemma rebin_join:
  "rebin (mkv [(X, 2)] [1, 2]) (edges_X [1, 2, 3]) (edges_X [1, 3]) = Inr (mkv [(X, 1)] [3])"
  by (simp add: rebin_eval)

lemma rebin_same_edges:
  "rebin (mkv [(X, 2)] [1, 2]) (edges_X [1, 2, 3]) (edges_X [1, 2, 3])
     = Inr (mkv [(X, 2)] [2, 4])"
  by (simp add: rebin_eval)

lemma rebin_outer:
  "rebin (mkv [(X, 2), (Y, 2)] [1, 2, 3, 4]) (edges_X [1, 2, 3]) (edges_X [1, 3])
     = Inr (mkv [(X, 1), (Y, 2)] [3, 7])"
  by (simp add: rebin_eval upt_rec replicate_2)

lemma rebinned_value_same_edges:
  "map (rebinned_value [1, 2, 3] [1, 2, 3] (\<lambda>i. [1, 2] ! i)) [0, 1] = [1, 2]"
  by (simp add: rebinned_value_def lessThan_Suc numeral_2_eq_2)

lemma rebinned_value_outer:
  "map (\<lambda>y. rebinned_value [1, 2, 3] [1, 3] (\<lambda>i. [1, 2, 3, 4] ! (i * 2 + y)) 0) [0, 1] = [4, 6]"
  by (simp add: rebinned_value_def lessThan_Suc numeral_2_eq_2)

text \<open>
  Claim C1: \<open>rebin(v, old_edges, new_edges)\<close> returns, in every output bin and for every
  combination of the other Dims, the sum over the input bins of the value times the
  overlap divided by the old width; rebinning \<open>[1, 2]\<close> from the edges \<open>[1, 2, 3]\<close> to
  \<open>[1, 3]\<close> gives \<open>[3]\<close>.  The example holds, the general statement does not.  When
  the new edges leave the number of bins unchanged, \<open>setDimensions\<close> keeps the copied
  elements and the rebinned values are added to them: \<open>[1, 2]\<close> rebinned from
  \<open>[1, 2, 3]\<close> to \<open>[1, 2, 3]\<close> is \<open>[2, 4]\<close> and not \<open>[1, 2]\<close>.  When the rebinned
  dimension is \<open>label(0)\<close> of a variable with further dimensions, \<open>rebinInner\<close> sums
  along the innermost dimension: \<open>{X:2, Y:2}\<close> with \<open>[1, 2, 3, 4]\<close> rebinned along \<open>X\<close>
  from \<open>[1, 2, 3]\<close> to \<open>[1, 3]\<close> is \<open>[3, 7]\<close> and not \<open>[4, 6]\<close>.
\<close>

theorem rebin_adds_to_copied_elements:
  "rebin (mkv [(X, 2)] [1, 2]) (edges_X [1, 2, 3]) (edges_X [1, 3]) = Inr (mkv [(X, 1)] [3])
   \<and> rebin (mkv [(X, 2)] [1, 2]) (edges_X [1, 2, 3]) (edges_X [1, 2, 3])
       = Inr (mkv [(X, 2)] [2, 4])
   \<and> map (rebinned_value [1, 2, 3] [1, 2, 3] (\<lambda>i. [1, 2] ! i)) [0, 1] = [1, 2]
   \<and> rebin (mkv [(X, 2), (Y, 2)] [1, 2, 3, 4]) (edges_X [1, 2, 3]) (edges_X [1, 3])
       = Inr (mkv [(X, 1), (Y, 2)] [3, 7])
   \<and> map (\<lambda>y. rebinned_value [1, 2, 3] [1, 3] (\<lambda>i. [1, 2, 3, 4] ! (i * 2 + y)) 0) [0, 1]
       = [4, 6]"
  using rebin_join rebin_same_edges rebinned_value_same_edges rebin_outer rebinned_value_outer
  by (intro conjI)

text \<open>
  Claim C5: for a \<open>Data::Events\<close> variable, \<open>+=\<close> with an operand of identical dimensions
  replaces every nested event list by the concatenation of the two corresponding event
  lists, and \<open>-=\<close> and \<open>*=\<close> fail.  For a variable that holds no event list there is
  nothing to replace and \<open>+=\<close> should leave it as it is.  The code guards the check of
  the operand with \<open>otherDatasets.size() > 0\<close> and then reads
  \<open>datasets[0].dimensions().label(0)\<close> without a guard: on the empty variable this is an
  access outside the buffer.
\<close>

theorem plus_assign_events_empty:
  "plus_assign op ds_dimensions ds_concatenate no_spectra (operand no_spectra)
     = (no_spectra, Some UndefinedBehaviour)
   \<and> volume (m_dimensions (no_spectra :: 'a Variable))
       = length (m_model (no_spectra :: 'a Variable))
   \<and> minus_assign op no_spectra (operand no_spectra)
       = (no_spectra, Some EventsSubtractionNotImplemented)
   \<and> times_assign umul op no_spectra (operand no_spectra)
       = (no_spectra, Some EventsMultiplicationNotImplemented)"
  by (simp add: plus_assign_def minus_assign_def times_assign_def no_spectra_def operand_def
      operand_elems_def contains_dims_def Let_def)

end
